theory Spec2Isabelle
  imports Complex_Main "HOL-Library.Multiset" "HOL-Library.Product_Lexorder"
begin

section \<open>Python values\<close>

text \<open>
  The values that \<^verbatim>\<open>json.loads\<close> produces and that the tasks pass around. A Python
  \<^verbatim>\<open>dict\<close> keeps its keys in insertion order and holds each key once, so it is an
  association list. Numbers are Python integers; a float behaves like the integer of its
  sign in every test made below (it is never a \<^verbatim>\<open>str\<close>, \<^verbatim>\<open>list\<close> or \<^verbatim>\<open>dict\<close> and is
  falsy exactly at zero).
\<close>

datatype json =
    JNull
  | JBool bool
  | JNum int
  | JStr string
  | JArr "json list"
  | JObj "(string \<times> json) list"

datatype py_exception =
    ZeroDivisionError
  | OverflowError
  | TypeError
  | ValueError
  | AttributeError
  | RuntimeError
  | DatabaseError

text \<open>\<^verbatim>\<open>isinstance(v, dict)\<close>, \<^verbatim>\<open>isinstance(v, list)\<close>, \<^verbatim>\<open>isinstance(v, str)\<close>.\<close>

fun is_dict :: "json \<Rightarrow> bool" where
  "is_dict (JObj kvs) = True"
| "is_dict v = False"

fun is_list :: "json \<Rightarrow> bool" where
  "is_list (JArr xs) = True"
| "is_list v = False"

fun is_str :: "json \<Rightarrow> bool" where
  "is_str (JStr s) = True"
| "is_str v = False"

text \<open>Truth value of a Python object, as \<^verbatim>\<open>or\<close>, \<^verbatim>\<open>not\<close> and \<^verbatim>\<open>bool()\<close> test it.\<close>

fun truthy :: "json \<Rightarrow> bool" where
  "truthy JNull = False"
| "truthy (JBool b) = b"
| "truthy (JNum n) = (n \<noteq> 0)"
| "truthy (JStr s) = (s \<noteq> [])"
| "truthy (JArr xs) = (xs \<noteq> [])"
| "truthy (JObj kvs) = (kvs \<noteq> [])"

text \<open>\<^verbatim>\<open>d.get(k)\<close> (\<^verbatim>\<open>None\<close> when the key is missing) and \<^verbatim>\<open>d.get(k, default)\<close>.\<close>

definition dict_get :: "(string \<times> json) list \<Rightarrow> string \<Rightarrow> json" where
  "dict_get d k = (case map_of d k of None \<Rightarrow> JNull | Some v \<Rightarrow> v)"

definition dict_get_default :: "(string \<times> json) list \<Rightarrow> string \<Rightarrow> json \<Rightarrow> json" where
  "dict_get_default d k dflt = (case map_of d k of None \<Rightarrow> dflt | Some v \<Rightarrow> v)"

text \<open>\<^verbatim>\<open>a or b\<close>: the first operand when it is truthy, the second otherwise.\<close>

definition py_or :: "json \<Rightarrow> json \<Rightarrow> json" where
  "py_or a b = (if truthy a then a else b)"

section \<open>Progress state (core/models.py)\<close>

datatype Status = PENDING | IN_PROGRESS | DONE | FAILED

record GenerationStatus =
  status :: Status
  total :: int
  completed :: int

text \<open>
  A Python float is an IEEE-754 double. Its finite values are rational numbers and are
  kept exact here; \<open>Inf\<close> stands for an infinity of either sign. The parameter \<open>fl\<close> is
  the rounding of an exact result to the nearest double as if the exponent had no upper
  limit; an operation overflows when the rounded result is beyond \<open>float_max\<close>, the
  largest double.

  \<^verbatim>\<open>completed / total\<close> is the true division of two integers: \<^verbatim>\<open>ZeroDivisionError\<close> on
  a zero divisor, \<^verbatim>\<open>OverflowError\<close> when the quotient is too large for a float, the
  rounded quotient otherwise. The float product overflows to an infinity without raising,
  and \<^verbatim>\<open>int(x)\<close> raises \<^verbatim>\<open>OverflowError\<close> on an infinity and truncates a finite \<open>x\<close>
  towards zero.
\<close>

datatype py_float = Finite rat | Inf

definition float_max :: rat where
  "float_max = (2 ^ 53 - 1) * 2 ^ 971"

definition py_truediv :: "(rat \<Rightarrow> rat) \<Rightarrow> int \<Rightarrow> int \<Rightarrow> py_exception + rat" where
  "py_truediv fl a b =
     (if b = 0 then Inl ZeroDivisionError
      else (let q = fl (rat_of_int a / rat_of_int b)
            in if float_max < \<bar>q\<bar> then Inl OverflowError else Inr q))"

definition py_float_mul :: "(rat \<Rightarrow> rat) \<Rightarrow> rat \<Rightarrow> rat \<Rightarrow> py_float" where
  "py_float_mul fl x y =
     (let p = fl (x * y) in if float_max < \<bar>p\<bar> then Inf else Finite p)"

definition py_int :: "py_float \<Rightarrow> py_exception + int" where
  "py_int x =
     (case x of
        Inf \<Rightarrow> Inl OverflowError
      | Finite r \<Rightarrow> Inr (if 0 \<le> r then \<lfloor>r\<rfloor> else \<lceil>r\<rceil>))"

definition progress_percent ::
  "(rat \<Rightarrow> rat) \<Rightarrow> GenerationStatus \<Rightarrow> py_exception + int" where
  "progress_percent fl self =
     (if total self = 0 then Inr 0
      else (case py_truediv fl (completed self) (total self) of
              Inl e \<Rightarrow> Inl e
            | Inr q \<Rightarrow>
                (case py_int (py_float_mul fl q 100) of
                   Inl e \<Rightarrow> Inl e
                 | Inr n \<Rightarrow> Inr (min 100 n))))"

text \<open>
  \<^verbatim>\<open>PositiveIntegerField\<close>: the values a stored \<open>total\<close> or \<open>completed\<close> can take.
\<close>

definition positive_integer_field :: "int \<Rightarrow> bool" where
  "positive_integer_field n = (0 \<le> n \<and> n \<le> 2147483647)"

section \<open>JSON Extractor (core/services/ai.py)\<close>

text \<open>
  \<^verbatim>\<open>str.find\<close> and \<^verbatim>\<open>str.rfind\<close> for a single character: the index of its first
  (last) occurrence, or \<open>-1\<close>. \<^verbatim>\<open>text[a:b]\<close> clamps both bounds to the string, a
  negative bound counting from the end.
\<close>

definition py_find :: "string \<Rightarrow> char \<Rightarrow> int" where
  "py_find s c = (if c \<in> set s then int (length (takeWhile (\<lambda>x. x \<noteq> c) s)) else - 1)"

definition py_rfind :: "string \<Rightarrow> char \<Rightarrow> int" where
  "py_rfind s c =
     (if c \<in> set s then int (length s) - 1 - int (length (takeWhile (\<lambda>x. x \<noteq> c) (rev s)))
      else - 1)"

definition slice_index :: "nat \<Rightarrow> int \<Rightarrow> nat" where
  "slice_index n i = (if i < 0 then nat (max 0 (int n + i)) else min n (nat i))"

definition py_slice :: "string \<Rightarrow> int \<Rightarrow> int \<Rightarrow> string" where
  "py_slice s a b =
     (let lo = slice_index (length s) a; hi = slice_index (length s) b
      in take (hi - lo) (drop lo s))"

text \<open>
  \<^verbatim>\<open>json.loads\<close> belongs to the Python library, so \<open>extract_json\<close> takes it as the
  parameter \<open>loads\<close>: \<open>None\<close> stands for any exception it raises, which the
  \<^verbatim>\<open>except Exception\<close> of \<open>extract_json\<close> turns into \<^verbatim>\<open>None\<close>.
\<close>

definition extract_json :: "(string \<Rightarrow> json option) \<Rightarrow> string \<Rightarrow> json option" where
  "extract_json loads text =
     (let start = py_find text (CHR ''{'');
          end' = py_rfind text (CHR ''}'') + 1
      in if start = - 1 \<or> end' = - 1 then None
         else loads (py_slice text start end'))"

subsection \<open>A reading of \<^verbatim>\<open>json.loads\<close>\<close>

text \<open>
  A concrete \<open>loads\<close> for running the program on examples: the JSON grammar as the
  Python decoder reads it (whitespace, \<^verbatim>\<open>null\<close>, \<^verbatim>\<open>true\<close>, \<^verbatim>\<open>false\<close>, integers without
  leading zeros, strings with the one-letter escapes, arrays, objects with string keys
  where a repeated key keeps its first position and its last value, and nothing but
  whitespace after the value). Fractions, exponents, \<^verbatim>\<open>\u\<close> escapes and the
  \<^verbatim>\<open>NaN\<close>/\<^verbatim>\<open>Infinity\<close> literals are outside this reading (it answers \<open>None\<close>
  there); no example below uses them. The fuel of \<open>lex\<close> and of the parser is the
  length of the input, which each step shortens.
\<close>

datatype token =
    LBRACE | RBRACE | LBRACKET | RBRACKET | COLON | COMMA
  | STRING string | NUMBER int | TRUE | FALSE | NULL

definition is_ws :: "char \<Rightarrow> bool" where
  "is_ws c = (c = CHR '' '' \<or> c = CHR 0x09 \<or> c = CHR 0x0A \<or> c = CHR 0x0D)"

definition is_digit :: "char \<Rightarrow> bool" where
  "is_digit c = (c \<in> set ''0123456789'')"

definition digit_val :: "char \<Rightarrow> int" where
  "digit_val c = int (of_char c) - 48"

definition unescape :: "char \<Rightarrow> char option" where
  "unescape c =
     (if c = CHR 0x22 \<or> c = CHR 0x5C \<or> c = CHR ''/'' then Some c
      else if c = CHR ''b'' then Some (CHR 0x08)
      else if c = CHR ''f'' then Some (CHR 0x0C)
      else if c = CHR ''n'' then Some (CHR 0x0A)
      else if c = CHR ''r'' then Some (CHR 0x0D)
      else if c = CHR ''t'' then Some (CHR 0x09)
      else None)"

fun scan_string :: "string \<Rightarrow> (string \<times> string) option" where
  "scan_string [] = None"
| "scan_string [c] = (if c = CHR 0x22 then Some ([], []) else None)"
| "scan_string (c # d # cs) =
     (if c = CHR 0x22 then Some ([], d # cs)
      else if c = CHR 0x5C then
        (case unescape d of
           None \<Rightarrow> None
         | Some e \<Rightarrow> map_option (\<lambda>(s, r). (e # s, r)) (scan_string cs))
      else if (of_char c :: nat) < 32 then None
      else map_option (\<lambda>(s, r). (c # s, r)) (scan_string (d # cs)))"

definition scan_number :: "string \<Rightarrow> (int \<times> string) option" where
  "scan_number s =
     (let (neg, s1) = (case s of c # cs \<Rightarrow> if c = CHR ''-'' then (True, cs) else (False, s)
                        | [] \<Rightarrow> (False, s));
          ds = (case s1 of c # cs \<Rightarrow> if c = CHR ''0'' then [c] else takeWhile is_digit s1
                  | [] \<Rightarrow> []);
          rest = drop (length ds) s1;
          n = foldl (\<lambda>a d. 10 * a + digit_val d) 0 ds
      in if ds = [] then None
         else if rest \<noteq> [] \<and> hd rest \<in> set ''.eE'' then None
         else Some (if neg then - n else n, rest))"

definition strip_prefix :: "string \<Rightarrow> string \<Rightarrow> string option" where
  "strip_prefix p s = (if take (length p) s = p then Some (drop (length p) s) else None)"

fun lex :: "nat \<Rightarrow> string \<Rightarrow> token list option" where
  "lex n [] = Some []"
| "lex 0 (c # cs) = None"
| "lex (Suc n) (c # cs) =
     (if is_ws c then lex n cs
      else if c = CHR ''{'' then map_option ((#) LBRACE) (lex n cs)
      else if c = CHR ''}'' then map_option ((#) RBRACE) (lex n cs)
      else if c = CHR ''['' then map_option ((#) LBRACKET) (lex n cs)
      else if c = CHR '']'' then map_option ((#) RBRACKET) (lex n cs)
      else if c = CHR '':'' then map_option ((#) COLON) (lex n cs)
      else if c = CHR '','' then map_option ((#) COMMA) (lex n cs)
      else if c = CHR 0x22 then
        (case scan_string cs of
           None \<Rightarrow> None
         | Some (s, rest) \<Rightarrow> map_option ((#) (STRING s)) (lex n rest))
      else if c = CHR ''-'' \<or> is_digit c then
        (case scan_number (c # cs) of
           None \<Rightarrow> None
         | Some (k, rest) \<Rightarrow> map_option ((#) (NUMBER k)) (lex n rest))
      else (case strip_prefix ''true'' (c # cs) of
              Some rest \<Rightarrow> map_option ((#) TRUE) (lex n rest)
            | None \<Rightarrow>
        (case strip_prefix ''false'' (c # cs) of
              Some rest \<Rightarrow> map_option ((#) FALSE) (lex n rest)
            | None \<Rightarrow>
        (case strip_prefix ''null'' (c # cs) of
              Some rest \<Rightarrow> map_option ((#) NULL) (lex n rest)
            | None \<Rightarrow> None))))"

definition dict_set :: "(string \<times> json) list \<Rightarrow> string \<Rightarrow> json \<Rightarrow> (string \<times> json) list" where
  "dict_set d k v =
     (if k \<in> fst ` set d then map (\<lambda>(k', v'). if k' = k then (k', v) else (k', v')) d
      else d @ [(k, v)])"

definition dict_of_pairs :: "(string \<times> json) list \<Rightarrow> (string \<times> json) list" where
  "dict_of_pairs kvs = foldl (\<lambda>d (k, v). dict_set d k v) [] kvs"

fun parse_value :: "nat \<Rightarrow> token list \<Rightarrow> (json \<times> token list) option"
  and parse_elements :: "nat \<Rightarrow> token list \<Rightarrow> (json list \<times> token list) option"
  and parse_members :: "nat \<Rightarrow> token list \<Rightarrow> ((string \<times> json) list \<times> token list) option"
where
  "parse_value 0 ts = None"
| "parse_value (Suc n) ts =
     (case ts of
        [] \<Rightarrow> None
      | t # r \<Rightarrow>
         (case t of
            NULL \<Rightarrow> Some (JNull, r)
          | TRUE \<Rightarrow> Some (JBool True, r)
          | FALSE \<Rightarrow> Some (JBool False, r)
          | NUMBER k \<Rightarrow> Some (JNum k, r)
          | STRING s \<Rightarrow> Some (JStr s, r)
          | LBRACKET \<Rightarrow>
              (case r of
                 RBRACKET # r' \<Rightarrow> Some (JArr [], r')
               | _ \<Rightarrow>
                 (case parse_value n r of
                    None \<Rightarrow> None
                  | Some (v, r') \<Rightarrow>
                      (case parse_elements n r' of
                         None \<Rightarrow> None
                       | Some (vs, r'') \<Rightarrow> Some (JArr (v # vs), r''))))
          | LBRACE \<Rightarrow>
              (case r of
                 RBRACE # r' \<Rightarrow> Some (JObj [], r')
               | STRING k # COLON # r' \<Rightarrow>
                 (case parse_value n r' of
                    None \<Rightarrow> None
                  | Some (v, r'') \<Rightarrow>
                      (case parse_members n r'' of
                         None \<Rightarrow> None
                       | Some (kvs, r''') \<Rightarrow> Some (JObj (dict_of_pairs ((k, v) # kvs)), r''')))
               | _ \<Rightarrow> None)
          | _ \<Rightarrow> None))"
| "parse_elements 0 ts = None"
| "parse_elements (Suc n) ts =
     (case ts of
        RBRACKET # r \<Rightarrow> Some ([], r)
      | COMMA # r \<Rightarrow>
          (case parse_value n r of
             None \<Rightarrow> None
           | Some (v, r') \<Rightarrow>
               (case parse_elements n r' of
                  None \<Rightarrow> None
                | Some (vs, r'') \<Rightarrow> Some (v # vs, r'')))
      | _ \<Rightarrow> None)"
| "parse_members 0 ts = None"
| "parse_members (Suc n) ts =
     (case ts of
        RBRACE # r \<Rightarrow> Some ([], r)
      | COMMA # STRING k # COLON # r \<Rightarrow>
          (case parse_value n r of
             None \<Rightarrow> None
           | Some (v, r') \<Rightarrow>
               (case parse_members n r' of
                  None \<Rightarrow> None
                | Some (kvs, r'') \<Rightarrow> Some ((k, v) # kvs, r'')))
      | _ \<Rightarrow> None)"

definition json_loads :: "string \<Rightarrow> json option" where
  "json_loads s =
     (case lex (length s) s of
        None \<Rightarrow> None
      | Some ts \<Rightarrow>
          (case parse_value (Suc (length ts)) ts of
             Some (v, []) \<Rightarrow> Some v
           | _ \<Rightarrow> None))"


section \<open>Resilient Generation Dispatcher (core/services/ai.py)\<close>

record model_cfg =
  name :: string
  day_limit_requests :: nat
  is_visual :: bool
  provider :: string
  type :: string

definition AI_MODELS :: "model_cfg list" where
  "AI_MODELS =
     [\<lparr>name = ''gemma-3-27b-it'', day_limit_requests = 14400, is_visual = True,
        provider = ''Google'', type = ''premium''\<rparr>,
      \<lparr>name = ''gemma-3-12b-it'', day_limit_requests = 14400, is_visual = False,
        provider = ''Google'', type = ''basic''\<rparr>,
      \<lparr>name = ''gemini-2.0-flash-lite'', day_limit_requests = 1500, is_visual = False,
        provider = ''Google'', type = ''premium''\<rparr>,
      \<lparr>name = ''gemini-2.0-flash'', day_limit_requests = 1500, is_visual = False,
        provider = ''Google'', type = ''premium''\<rparr>,
      \<lparr>name = ''llama-3.3-70b-versatile'', day_limit_requests = 1000, is_visual = False,
        provider = ''Groq'', type = ''premium''\<rparr>,
      \<lparr>name = ''qwen/qwen3-32b'', day_limit_requests = 1000, is_visual = False,
        provider = ''Groq'', type = ''premium''\<rparr>]"

text \<open>
  Python lists are mutable objects that variables refer to. The store holds the list
  objects; a reference is an index into it. The module's global \<^verbatim>\<open>AI_MODELS\<close> is the
  reference \<open>AI_MODELS_ref\<close>, and \<open>module_heap\<close> is the store once the module is
  loaded. \<^verbatim>\<open>xs.copy()\<close> allocates a new list object with the same elements.
\<close>

type_synonym heap = "model_cfg list list"

definition AI_MODELS_ref :: nat where
  "AI_MODELS_ref = 0"

definition module_heap :: heap where
  "module_heap = [AI_MODELS]"

definition list_copy :: "heap \<Rightarrow> nat \<Rightarrow> nat \<times> heap" where
  "list_copy h r = (length h, h @ [h ! r])"

text \<open>
  \<^verbatim>\<open>random.shuffle(x)\<close> of the Python library works in place:
  \<^verbatim>\<open>for i in reversed(range(1, len(x))): j = randbelow(i + 1); x[i], x[j] = x[j], x[i]\<close>.
  The random source is the parameter \<open>rnd\<close>: \<open>rnd (i + 1) mod (i + 1)\<close> is the draw
  of \<^verbatim>\<open>randbelow(i + 1)\<close>.
\<close>

fun shuffle_steps :: "(nat \<Rightarrow> nat) \<Rightarrow> nat list \<Rightarrow> 'a list \<Rightarrow> 'a list" where
  "shuffle_steps rnd [] x = x"
| "shuffle_steps rnd (i # is) x =
     (let j = rnd (i + 1) mod (i + 1)
      in shuffle_steps rnd is (x[i := x ! j, j := x ! i]))"

definition random_shuffle :: "(nat \<Rightarrow> nat) \<Rightarrow> 'a list \<Rightarrow> 'a list" where
  "random_shuffle rnd x = shuffle_steps rnd (rev [1..<length x]) x"

definition heap_shuffle :: "(nat \<Rightarrow> nat) \<Rightarrow> heap \<Rightarrow> nat \<Rightarrow> heap" where
  "heap_shuffle rnd h r = h[r := random_shuffle rnd (h ! r)]"

text \<open>
  The backends answer the request of one Dispatcher call: \<open>reply cfg a\<close> is the raw
  text that attempt \<open>a\<close> on model \<open>cfg\<close> gets, or \<open>None\<close> when anything in the call
  raises (transport or API error, a response without text). One attempt is the body of
  the inner loop: \<open>Some v\<close> when it returns \<open>v\<close>, \<open>None\<close> when it goes on to the next
  attempt (\<^verbatim>\<open>continue\<close>, a caught exception, or the end of the body).
\<close>

type_synonym backend = "model_cfg \<Rightarrow> nat \<Rightarrow> string option"

definition known_provider :: "model_cfg \<Rightarrow> bool" where
  "known_provider cfg = (provider cfg = ''Google'' \<or> provider cfg = ''Groq'')"

definition attempt ::
  "(string \<Rightarrow> json option) \<Rightarrow> backend \<Rightarrow> model_cfg \<Rightarrow> nat \<Rightarrow> json option" where
  "attempt loads reply cfg a =
     (if \<not> known_provider cfg then None
      else (case reply cfg a of
              None \<Rightarrow> None
            | Some text \<Rightarrow>
                (case extract_json loads text of
                   None \<Rightarrow> None
                 | Some parsed \<Rightarrow>
                     if is_dict parsed then Some parsed
                     else (case parsed of JStr s \<Rightarrow> loads s | _ \<Rightarrow> None))))"

text \<open>
  The two loops. Beside the result they give the calls made to the backends, in order,
  each as (model name, attempt number); an unknown provider is skipped without a call.
\<close>

fun try_attempts ::
  "(string \<Rightarrow> json option) \<Rightarrow> backend \<Rightarrow> model_cfg \<Rightarrow> nat list
     \<Rightarrow> json option \<times> (string \<times> nat) list" where
  "try_attempts loads reply cfg [] = (None, [])"
| "try_attempts loads reply cfg (a # as) =
     (let call = (if known_provider cfg then [(name cfg, a)] else [])
      in (case attempt loads reply cfg a of
            Some v \<Rightarrow> (Some v, call)
          | None \<Rightarrow>
              (case try_attempts loads reply cfg as of
                 (r, calls) \<Rightarrow> (r, call @ calls))))"

fun try_models ::
  "(string \<Rightarrow> json option) \<Rightarrow> backend \<Rightarrow> model_cfg list
     \<Rightarrow> json option \<times> (string \<times> nat) list" where
  "try_models loads reply [] = (None, [])"
| "try_models loads reply (cfg # cfgs) =
     (case try_attempts loads reply cfg [0..<2] of
        (Some v, calls) \<Rightarrow> (Some v, calls)
      | (None, calls) \<Rightarrow>
          (case try_models loads reply cfgs of
             (r, calls') \<Rightarrow> (r, calls @ calls')))"

text \<open>
  \<open>generate_text\<close>: copy the catalog, shuffle the copy, try the models in that order,
  raise \<^verbatim>\<open>RuntimeError\<close> when the loops end without a return. The result comes with the
  calls made and the store after the call.
\<close>

definition generate_text ::
  "(string \<Rightarrow> json option) \<Rightarrow> (nat \<Rightarrow> nat) \<Rightarrow> backend \<Rightarrow> heap
     \<Rightarrow> (py_exception + json) \<times> (string \<times> nat) list \<times> heap" where
  "generate_text loads rnd reply h =
     (case list_copy h AI_MODELS_ref of
        (models, h1) \<Rightarrow>
          (let h2 = heap_shuffle rnd h1 models
           in (case try_models loads reply (h2 ! models) of
                 (None, calls) \<Rightarrow> (Inl RuntimeError, calls, h2)
               | (Some v, calls) \<Rightarrow> (Inr v, calls, h2))))"

text \<open>
  The calls of a full pass over a list of models, in order: the attempts \<open>0\<close> and \<open>1\<close>
  on each model whose provider is known.
\<close>

definition attempt_calls :: "model_cfg \<Rightarrow> nat list \<Rightarrow> (string \<times> nat) list" where
  "attempt_calls cfg as = (if known_provider cfg then map (Pair (name cfg)) as else [])"

definition schedule :: "model_cfg list \<Rightarrow> (string \<times> nat) list" where
  "schedule ms = concat (map (\<lambda>cfg. attempt_calls cfg [0..<2]) ms)"

text \<open>
  The Dispatcher's contract in the words of the specification: an attempt yields a parsed
  mapping when the backend answers with a text from which the Extractor recovers a
  mapping.
\<close>

definition yields_mapping ::
  "(string \<Rightarrow> json option) \<Rightarrow> backend \<Rightarrow> model_cfg \<Rightarrow> nat \<Rightarrow> json option" where
  "yields_mapping loads reply cfg a =
     (case reply cfg a of
        None \<Rightarrow> None
      | Some text \<Rightarrow>
          (case extract_json loads text of
             Some (JObj d) \<Rightarrow> Some (JObj d)
           | _ \<Rightarrow> None))"

text \<open>
  What the Python decoder guarantees and the Dispatcher relies on: a text that starts
  with \<^verbatim>\<open>{\<close> decodes to a \<^verbatim>\<open>dict\<close> when it decodes at all, and the empty text does not
  decode.
\<close>

definition object_texts_give_dicts :: "(string \<Rightarrow> json option) \<Rightarrow> bool" where
  "object_texts_give_dicts loads =
     (\<forall>s v. loads s = Some v \<longrightarrow> (s = [] \<or> hd s = CHR ''{'') \<longrightarrow> is_dict v)"

section \<open>Lesson Generation Orchestrator (core/tasks.py)\<close>

text \<open>
  A \<^verbatim>\<open>LessonBlock\<close> row. Identifiers (UUIDs in the code) are natural numbers; \<open>title\<close>
  and \<open>content\<close> keep the Python value that the task assigns to the field.
\<close>

record LessonBlock =
  block_id :: nat
  lesson :: nat
  order :: int
  title :: json
  content :: json
  has_task :: bool

text \<open>
  The state of one run of \<open>generate_lesson_task\<close>: the Python object \<^verbatim>\<open>status\<close> (\<open>mem\<close>),
  the persisted \<^verbatim>\<open>GenerationStatus\<close> row of the lesson (\<open>row\<close>), the \<^verbatim>\<open>LessonBlock\<close> table
  (\<open>blocks\<close>), and two records of what happened: every value the persisted row took, in
  order (\<open>snapshots\<close>: what a poller can observe), and the numbers of the Dispatcher calls
  made (\<open>generated\<close>: 0 for the outline, \<open>i\<close> for hint \<open>i\<close>).
\<close>

record job =
  mem :: GenerationStatus
  row :: GenerationStatus
  snapshots :: "GenerationStatus list"
  blocks :: "LessonBlock list"
  generated :: "nat list"

text \<open>
  What the run meets outside the task: the JSON decoder, Python's \<^verbatim>\<open>str()\<close>, the result
  of the \<open>i\<close>-th Dispatcher call (a value or an exception), the outcome of
  \<^verbatim>\<open>LessonBlock.objects.create\<close> for hint \<open>i\<close> (the new row's identifier, or \<open>None\<close> for a
  database error), and whether the \<^verbatim>\<open>block.save\<close> of the renumbering succeeds at index
  \<open>idx\<close>. Writes of the job's own \<^verbatim>\<open>GenerationStatus\<close> row are taken to succeed.
\<close>

record env =
  env_loads :: "string \<Rightarrow> json option"
  env_str :: "json \<Rightarrow> string"
  env_generate :: "nat \<Rightarrow> py_exception + json"
  env_create :: "nat \<Rightarrow> nat option"
  env_save_order :: "nat \<Rightarrow> bool"

text \<open>
  \<^verbatim>\<open>status.save(update_fields=[...])\<close> writes the named fields of the object to the row
  and leaves the other columns as they are.
\<close>

datatype field = F_status | F_total | F_completed

definition save_status :: "field list \<Rightarrow> job \<Rightarrow> job" where
  "save_status fs j =
     (let r = \<lparr>status = (if F_status \<in> set fs then status (mem j) else status (row j)),
               total = (if F_total \<in> set fs then total (mem j) else total (row j)),
               completed = (if F_completed \<in> set fs then completed (mem j)
                            else completed (row j))\<rparr>
      in j\<lparr>row := r, snapshots := snapshots j @ [r]\<rparr>)"

text \<open>
  \<^verbatim>\<open>get_or_create\<close>, then the reset of \<open>status\<close> and \<open>completed\<close> and its save.
\<close>

definition start_job :: "GenerationStatus option \<Rightarrow> LessonBlock list \<Rightarrow> job" where
  "start_job row0 bs =
     (let new = \<lparr>status = IN_PROGRESS, total = 0, completed = 0\<rparr>;
          r = (case row0 of None \<Rightarrow> new | Some r0 \<Rightarrow> r0);
          created = (case row0 of None \<Rightarrow> [new] | Some r0 \<Rightarrow> [])
      in save_status [F_status, F_completed]
           \<lparr>mem = r\<lparr>status := IN_PROGRESS, completed := 0\<rparr>, row = r,
            snapshots = created, blocks = bs, generated = []\<rparr>)"

definition fail_job :: "job \<Rightarrow> job" where
  "fail_job j = save_status [F_status] (j\<lparr>mem := (mem j)\<lparr>status := FAILED\<rparr>\<rparr>)"

text \<open>
  Phase 1, from the Dispatcher's result to the list of hints: a non-dict goes through
  \<^verbatim>\<open>json.loads\<close> (which raises on anything but a decodable string), then
  \<^verbatim>\<open>structure.get("blocks", [])\<close> (an \<^verbatim>\<open>AttributeError\<close> unless \<open>structure\<close> is a dict) and
  the \<^verbatim>\<open>isinstance(blocks_hints, list)\<close> test.
\<close>

datatype outline =
    Hints "json list"
  | Parse_Failed
  | Not_A_List
  | Outline_Raised py_exception

definition outline_hints ::
  "(string \<Rightarrow> json option) \<Rightarrow> py_exception + json \<Rightarrow> outline" where
  "outline_hints loads r =
     (case r of
        Inl e \<Rightarrow> Outline_Raised e
      | Inr structure_json \<Rightarrow>
          (case (if is_dict structure_json then Some structure_json
                 else (case structure_json of JStr s \<Rightarrow> loads s | _ \<Rightarrow> None)) of
             None \<Rightarrow> Parse_Failed
           | Some structure \<Rightarrow>
               (case structure of
                  JObj d \<Rightarrow>
                    (case dict_get_default d ''blocks'' (JArr []) of
                       JArr blocks_hints \<Rightarrow> Hints blocks_hints
                     | _ \<Rightarrow> Not_A_List)
                | _ \<Rightarrow> Outline_Raised AttributeError)))"

text \<open>
  Phase 2, one hint. \<open>hint_of\<close> is the value bound to \<^verbatim>\<open>hint\<close>; the log line before the
  inner \<^verbatim>\<open>try\<close> evaluates \<^verbatim>\<open>hint[:200]\<close>, which raises unless \<open>hint\<close> is a string or a
  list, and that exception leaves the loop for the outer handler.
\<close>

definition hint_of :: "(json \<Rightarrow> string) \<Rightarrow> json \<Rightarrow> json" where
  "hint_of str block_topic =
     (case block_topic of
        JObj d \<Rightarrow>
          py_or (dict_get d ''block_topic'')
            (py_or (dict_get d ''prompt'') (JStr (str block_topic)))
      | _ \<Rightarrow> JStr (str block_topic))"

fun sliceable :: "json \<Rightarrow> bool" where
  "sliceable (JStr s) = True"
| "sliceable (JArr xs) = True"
| "sliceable v = False"

text \<open>The decimal digits of \<open>i\<close>, and the default title: the word in UTF-8, a space, \<open>i\<close>.\<close>

fun digits :: "nat \<Rightarrow> string" where
  "digits n =
     (if n < 10 then [char_of (48 + n)]
      else digits (n div 10) @ [char_of (48 + n mod 10)])"

definition default_title :: "nat \<Rightarrow> string" where
  "default_title i =
     [CHR 0xD0, CHR 0x91, CHR 0xD0, CHR 0xBB, CHR 0xD0, CHR 0xBE, CHR 0xD0, CHR 0xBA] @ '' ''
       @ digits i"

text \<open>
  The inner \<^verbatim>\<open>try\<close>: the fields of the new block, or the exception that the
  \<^verbatim>\<open>except Exception\<close> catches.
\<close>

definition block_fields ::
  "(string \<Rightarrow> json option) \<Rightarrow> nat \<Rightarrow> py_exception + json
     \<Rightarrow> py_exception + json \<times> json \<times> bool" where
  "block_fields loads i r =
     (case r of
        Inl e \<Rightarrow> Inl e
      | Inr block_data \<Rightarrow>
          (case (case block_data of
                   JStr s \<Rightarrow> (case loads s of None \<Rightarrow> Inl ValueError | Some v \<Rightarrow> Inr v)
                 | _ \<Rightarrow> Inr block_data) of
             Inl e \<Rightarrow> Inl e
           | Inr data \<Rightarrow>
               (case data of
                  JObj d \<Rightarrow>
                    Inr (py_or (dict_get d ''title'') (JStr (default_title i)),
                         py_or (dict_get d ''content'') (JStr []),
                         truthy (dict_get_default d ''has_task'' (JBool False)))
                | _ \<Rightarrow> Inl ValueError)))"

definition decrement_total :: "job \<Rightarrow> job" where
  "decrement_total j =
     (if total (mem j) > 0
      then save_status [F_total] (j\<lparr>mem := (mem j)\<lparr>total := max 0 (total (mem j) - 1)\<rparr>\<rparr>)
      else j)"

definition block_saved :: "nat \<Rightarrow> LessonBlock \<Rightarrow> job \<Rightarrow> job" where
  "block_saved i b j =
     save_status [F_completed]
       (j\<lparr>blocks := blocks j @ [b],
          mem := (mem j)\<lparr>completed := completed (mem j) + 1\<rparr>\<rparr>)"

definition process_hint ::
  "env \<Rightarrow> nat \<Rightarrow> nat \<Rightarrow> json \<Rightarrow> job \<Rightarrow> py_exception \<times> job + job" where
  "process_hint w lesson_id i block_topic j =
     (if \<not> sliceable (hint_of (env_str w) block_topic) then Inl (TypeError, j)
      else
        (let j1 = j\<lparr>generated := generated j @ [i]\<rparr>
         in (case block_fields (env_loads w) i (env_generate w i) of
               Inl e \<Rightarrow> Inr (decrement_total j1)
             | Inr (title', content', has_task') \<Rightarrow>
                 (case env_create w i of
                    None \<Rightarrow> Inr (decrement_total j1)
                  | Some new_id \<Rightarrow>
                      if new_id \<in> block_id ` set (blocks j1) then Inr (decrement_total j1)
                      else Inr (block_saved i
                                  \<lparr>block_id = new_id, lesson = lesson_id, order = int i,
                                   title = title', content = content', has_task = has_task'\<rparr>
                                  j1)))))"

fun process_hints ::
  "env \<Rightarrow> nat \<Rightarrow> nat \<Rightarrow> json list \<Rightarrow> job \<Rightarrow> py_exception \<times> job + job" where
  "process_hints w lesson_id i [] j = Inr j"
| "process_hints w lesson_id i (block_topic # rest) j =
     (case process_hint w lesson_id i block_topic j of
        Inl x \<Rightarrow> Inl x
      | Inr j' \<Rightarrow> process_hints w lesson_id (Suc i) rest j')"

text \<open>
  The renumbering after the loop: the lesson's blocks ordered by \<open>(order, id)\<close>, and for
  each one whose \<open>order\<close> differs from its index a \<^verbatim>\<open>block.save(update_fields=['order'])\<close>.
  A failing save raises; the \<^verbatim>\<open>except\<close> around the loop swallows it and the remaining
  blocks keep their numbers. The result is the table and the writes attempted, each as
  (block id, new order).
\<close>

definition ordered_blocks :: "nat \<Rightarrow> LessonBlock list \<Rightarrow> LessonBlock list" where
  "ordered_blocks lesson_id tbl =
     sort_key (\<lambda>b. (order b, block_id b)) (filter (\<lambda>b. lesson b = lesson_id) tbl)"

definition set_order :: "nat \<Rightarrow> int \<Rightarrow> LessonBlock list \<Rightarrow> LessonBlock list" where
  "set_order bid n tbl = map (\<lambda>r. if block_id r = bid then r\<lparr>order := n\<rparr> else r) tbl"

fun fix_orders ::
  "(nat \<Rightarrow> bool) \<Rightarrow> nat \<Rightarrow> LessonBlock list \<Rightarrow> LessonBlock list
     \<Rightarrow> LessonBlock list \<times> (nat \<times> int) list" where
  "fix_orders ok idx [] tbl = (tbl, [])"
| "fix_orders ok idx (b # bs) tbl =
     (if order b \<noteq> int idx then
        (if ok idx then
           (case fix_orders ok (Suc idx) bs (set_order (block_id b) (int idx) tbl) of
              (tbl', writes) \<Rightarrow> (tbl', (block_id b, int idx) # writes))
         else (tbl, [(block_id b, int idx)]))
      else fix_orders ok (Suc idx) bs tbl)"

definition reconcile ::
  "(nat \<Rightarrow> bool) \<Rightarrow> nat \<Rightarrow> LessonBlock list \<Rightarrow> LessonBlock list \<times> (nat \<times> int) list" where
  "reconcile ok lesson_id tbl = fix_orders ok 1 (ordered_blocks lesson_id tbl) tbl"

text \<open>Finalization, and the task. \<open>lessons\<close> are the identifiers of the stored lessons.\<close>

definition final_status :: "GenerationStatus \<Rightarrow> Status" where
  "final_status s =
     (if completed s = total s then DONE
      else if completed s = 0 then FAILED
      else IN_PROGRESS)"

datatype ending = Finalized | Returned_Failed | Caught py_exception

definition generate_lesson_task ::
  "env \<Rightarrow> nat list \<Rightarrow> nat \<Rightarrow> GenerationStatus option \<Rightarrow> LessonBlock list
     \<Rightarrow> (ending \<times> job) option" where
  "generate_lesson_task w lessons lesson_id row0 tbl =
     (if lesson_id \<notin> set lessons then None
      else
        (let j1 = (start_job row0 tbl)\<lparr>generated := [0]\<rparr>
         in Some
           (case outline_hints (env_loads w) (env_generate w 0) of
              Outline_Raised e \<Rightarrow> (Caught e, fail_job j1)
            | Parse_Failed \<Rightarrow> (Returned_Failed, fail_job j1)
            | Not_A_List \<Rightarrow> (Returned_Failed, fail_job j1)
            | Hints blocks_hints \<Rightarrow>
                (let j2 = save_status [F_total]
                            (j1\<lparr>mem := (mem j1)\<lparr>total := int (length blocks_hints)\<rparr>\<rparr>)
                 in (case process_hints w lesson_id 1 blocks_hints j2 of
                       Inl (e, j3) \<Rightarrow> (Caught e, fail_job j3)
                     | Inr j3 \<Rightarrow>
                         (let j4 = j3\<lparr>blocks :=
                                       fst (reconcile (env_save_order w) lesson_id (blocks j3))\<rparr>
                          in (Finalized,
                              save_status [F_status]
                                (j4\<lparr>mem := (mem j4)\<lparr>status := final_status (mem j4)\<rparr>\<rparr>))))))))"

section \<open>Progress invariants\<close>

text \<open>
  What one write of the persisted row may do to \<open>completed\<close> and \<open>total\<close>: count one
  more section, drop one planned section (never below zero), or leave both (a write of
  the status alone). A snapshot is in order when \<open>0 \<le> completed \<le> total\<close>.
\<close>

definition progress_step :: "GenerationStatus \<Rightarrow> GenerationStatus \<Rightarrow> bool" where
  "progress_step a b =
     ((completed b = completed a + 1 \<and> total b = total a)
      \<or> (completed b = completed a \<and> total b = total a - 1 \<and> 0 \<le> total b)
      \<or> (completed b = completed a \<and> total b = total a))"

definition ok_snapshot :: "GenerationStatus \<Rightarrow> bool" where
  "ok_snapshot s = (0 \<le> completed s \<and> completed s \<le> total s)"

text \<open>
  Between two hints the object and the row agree on both counters, and \<open>completed\<close> plus
  the number of hints still to come equals \<open>total\<close>.
\<close>

definition synced :: "job \<Rightarrow> bool" where
  "synced j = (total (row j) = total (mem j) \<and> completed (row j) = completed (mem j))"

definition loop_inv :: "nat \<Rightarrow> job \<Rightarrow> bool" where
  "loop_inv n j = (synced j \<and> 0 \<le> completed (mem j) \<and> completed (mem j) + int n = total (mem j))"

text \<open>The state in which the section loop ends, by return or by exception.\<close>

definition final_job :: "py_exception \<times> job + job \<Rightarrow> job" where
  "final_job r = (case r of Inl (e, j) \<Rightarrow> j | Inr j \<Rightarrow> j)"



subsection \<open>Example runs\<close>




definition no_blocks_env :: env where
  "no_blocks_env =
     \<lparr>env_loads = json_loads, env_str = (\<lambda>v. ''topic''),
      env_generate = (\<lambda>i. Inr (JObj [])),
      env_create = (\<lambda>i. Some (10 + i)),
      env_save_order = (\<lambda>idx. True)\<rparr>"

definition two_blocks :: "LessonBlock list" where
  "two_blocks =
     [\<lparr>block_id = 5, lesson = 7, order = 2, title = JStr ''B'', content = JStr ''b'',
        has_task = False\<rparr>,
      \<lparr>block_id = 3, lesson = 7, order = 1, title = JStr ''A'', content = JStr ''a'',
        has_task = True\<rparr>,
      \<lparr>block_id = 9, lesson = 8, order = 7, title = JStr ''C'', content = JStr ''c'',
        has_task = False\<rparr>]"

section \<open>Section Improvement Orchestrator (core/tasks.py)\<close>







section \<open>Properties of the progress query\<close>

lemma float_max_large: "2 ^ 40 \<le> float_max"
proof -
  have "(2::rat) ^ 40 \<le> 2 ^ 971" by (rule power_increasing) simp_all
  also have "\<dots> = 1 * 2 ^ 971" by simp
  also have "\<dots> \<le> (2 ^ 53 - 1) * 2 ^ 971" by (rule mult_right_mono) simp_all
  finally show ?thesis by (simp only: float_max_def)
qed

text \<open>
  C10 (as amended). For every GenerationStatus whose \<open>total\<close> and \<open>completed\<close> are in
  the range of their column, 0 to 2147483647, \<open>progress_percent\<close> returns (it raises
  neither \<^verbatim>\<open>ZeroDivisionError\<close> nor \<^verbatim>\<open>OverflowError\<close>) an integer between 0 and 100,
  and it returns 0 when \<open>total\<close> is 0. The rounding is any function that keeps a
  non-negative number between 0 and its double.
\<close>

theorem progress_percent_range:
  assumes fl: "\<forall>x. 0 \<le> x \<longrightarrow> 0 \<le> fl x \<and> fl x \<le> 2 * x"
    and t: "positive_integer_field (total self)"
    and c: "positive_integer_field (completed self)"
  shows "\<exists>p. progress_percent fl self = Inr p \<and> 0 \<le> p \<and> p \<le> 100
           \<and> (total self = 0 \<longrightarrow> p = 0)"
proof (cases "total self = 0")
  case True
  then show ?thesis by (simp add: progress_percent_def)
next
  case False
  with t have pos: "1 \<le> total self" by (simp add: positive_integer_field_def)
  define x where "x = rat_of_int (completed self) / rat_of_int (total self)"
  define q where "q = fl x"
  define p where "p = fl (q * 100)"
  have c0: "0 \<le> rat_of_int (completed self)" and c1: "rat_of_int (completed self) \<le> 2147483647"
    using c by (simp_all add: positive_integer_field_def)
  have t1: "1 \<le> rat_of_int (total self)" using pos by simp
  have x0: "0 \<le> x" unfolding x_def using c0 t1 by simp
  have "x \<le> rat_of_int (completed self) / 1"
    unfolding x_def using c0 t1 by (intro divide_left_mono) simp_all
  with c1 have x1: "x \<le> 2147483647" by simp
  from fl x0 have q0: "0 \<le> q" and "q \<le> 2 * x" unfolding q_def by blast+
  with x1 have q1: "q \<le> 4294967294" by simp
  from q0 have "0 \<le> q * 100" by simp
  with fl have p0: "0 \<le> p" and "p \<le> 2 * (q * 100)" unfolding p_def by blast+
  with q1 have p1: "p \<le> 858993458800" by simp
  have "(858993458800::rat) \<le> 2 ^ 40" by simp
  then have m: "858993458800 \<le> float_max" using float_max_large by (rule order_trans)
  have qm: "\<not> float_max < \<bar>q\<bar>" using q0 q1 m by simp
  have pm: "\<not> float_max < \<bar>p\<bar>" using p0 p1 m by simp
  have d: "py_truediv fl (completed self) (total self) = Inr q"
    using False qm by (simp add: py_truediv_def Let_def q_def x_def)
  have "py_float_mul fl q 100 = Finite p"
    using pm by (simp add: py_float_mul_def Let_def p_def)
  then have i: "py_int (py_float_mul fl q 100) = Inr \<lfloor>p\<rfloor>"
    using p0 by (simp add: py_int_def)
  have "progress_percent fl self = Inr (min 100 \<lfloor>p\<rfloor>)"
    using False by (simp add: progress_percent_def d i)
  moreover have "0 \<le> \<lfloor>p\<rfloor>" using p0 by simp
  ultimately show ?thesis using False by simp
qed

theorem progress_percent_range_witness:
  "positive_integer_field 3 \<and> positive_integer_field 1
   \<and> progress_percent (\<lambda>x. x) \<lparr>status = IN_PROGRESS, total = 3, completed = 1\<rparr> = Inr 33"
proof -
  let ?s = "\<lparr>status = IN_PROGRESS, total = 3, completed = 1\<rparr>"
  have f: "\<forall>x::rat. 0 \<le> x \<longrightarrow> 0 \<le> x \<and> x \<le> 2 * x" by simp
  have t: "positive_integer_field (total ?s)" and c: "positive_integer_field (completed ?s)"
    by (simp_all add: positive_integer_field_def)
  from progress_percent_range [of "\<lambda>x. x" ?s, OF f t c]
  obtain p where p: "progress_percent (\<lambda>x. x) ?s = Inr p" by blast
  have m: "\<not> float_max < 858993458800" using float_max_large by simp
  have "\<not> float_max < 1 / 3" and "\<not> float_max < 100 / 3" using m by simp_all
  then have "progress_percent (\<lambda>x. x) ?s = Inr 33"
    by (simp add: progress_percent_def py_truediv_def py_float_mul_def py_int_def
        floor_eq_iff)
  with p t c show ?thesis by simp
qed

text \<open>
  C10 as stated fails: with \<open>total = 1\<close> and \<open>completed = 10 ^ 309\<close>, both non-negative,
  the quotient is too large for a float and the division raises \<^verbatim>\<open>OverflowError\<close>.
\<close>

theorem progress_percent_overflow_counterexample:
  "0 \<le> total \<lparr>status = IN_PROGRESS, total = 1, completed = 10 ^ 309\<rparr>
   \<and> 0 \<le> completed \<lparr>status = IN_PROGRESS, total = 1, completed = 10 ^ 309\<rparr>
   \<and> progress_percent (\<lambda>x. x) \<lparr>status = IN_PROGRESS, total = 1, completed = 10 ^ 309\<rparr>
       = Inl OverflowError"
proof -
  have "float_max < 10 ^ 309" by (simp add: float_max_def)
  then show ?thesis by (simp add: progress_percent_def py_truediv_def)
qed

section \<open>Properties of the JSON Extractor\<close>

lemma takeWhile_neq_all: "c \<notin> set xs \<Longrightarrow> takeWhile (\<lambda>x. x \<noteq> c) xs = xs"
  by (induction xs) auto

lemma py_find_absent: "c \<notin> set s \<Longrightarrow> py_find s c = - 1"
  by (simp add: py_find_def)

lemma py_find_first: "c \<notin> set pre \<Longrightarrow> py_find (pre @ c # rest) c = int (length pre)"
  by (simp add: py_find_def takeWhile_tail takeWhile_neq_all)

lemma py_rfind_absent: "c \<notin> set s \<Longrightarrow> py_rfind s c = - 1"
  by (simp add: py_rfind_def)

lemma py_rfind_last:
  "c \<notin> set post \<Longrightarrow> py_rfind (pre @ c # post) c = int (length pre)"
  by (simp add: py_rfind_def takeWhile_tail takeWhile_neq_all)

lemma py_rfind_bounds: "- 1 \<le> py_rfind s c"
  by (simp add: py_rfind_def) (metis length_rev length_takeWhile_le nat_le_linear not_less_eq_eq of_nat_le_iff)

lemma py_slice_span:
  "py_slice (pre @ mid @ post) (int (length pre)) (int (length pre + length mid)) = mid"
  by (simp add: py_slice_def slice_index_def)

lemma py_slice_empty: "b \<le> a \<Longrightarrow> 0 \<le> b \<Longrightarrow> py_slice s a b = []"
  by (simp add: py_slice_def slice_index_def)

text \<open>
  C3 (as amended). \<open>extract_json\<close> hands \<^verbatim>\<open>json.loads\<close> the span from the first
  \<^verbatim>\<open>{\<close> of the text to its last \<^verbatim>\<open>}\<close> and returns what it parses (\<open>None\<close> when it
  raises): a text with no \<^verbatim>\<open>{\<close> gives \<open>None\<close>; a text whose first \<^verbatim>\<open>{\<close> comes before
  its last \<^verbatim>\<open>}\<close> gives the parse of everything between them, both included; a text
  with no \<^verbatim>\<open>}\<close> after its first \<^verbatim>\<open>{\<close> gives the parse of the empty string.
\<close>

theorem extract_json_span:
  "(CHR ''{'' \<notin> set text \<longrightarrow> extract_json loads text = None)
   \<and> (CHR ''{'' \<notin> set pre \<and> CHR ''}'' \<notin> set post \<longrightarrow>
        extract_json loads (pre @ CHR ''{'' # body @ CHR ''}'' # post)
          = loads (CHR ''{'' # body @ [CHR ''}'']))
   \<and> (CHR ''{'' \<notin> set pre \<and> CHR ''}'' \<notin> set rest \<longrightarrow>
        extract_json loads (pre @ CHR ''{'' # rest) = loads [])"
proof (intro conjI impI)
  assume "CHR ''{'' \<notin> set text"
  then show "extract_json loads text = None"
    by (simp add: extract_json_def py_find_absent)
next
  assume a: "CHR ''{'' \<notin> set pre \<and> CHR ''}'' \<notin> set post"
  let ?mid = "CHR ''{'' # body @ [CHR ''}'']"
  let ?t = "pre @ CHR ''{'' # body @ CHR ''}'' # post"
  have f: "py_find ?t (CHR ''{'') = int (length pre)"
    using a by (simp add: py_find_first)
  have "py_rfind ((pre @ CHR ''{'' # body) @ CHR ''}'' # post) (CHR ''}'')
          = int (length (pre @ CHR ''{'' # body))"
    using a by (intro py_rfind_last) simp
  then have r: "py_rfind ?t (CHR ''}'') + 1 = int (length pre + length ?mid)"
    by simp
  have "py_slice (pre @ ?mid @ post) (int (length pre)) (int (length pre + length ?mid)) = ?mid"
    by (rule py_slice_span)
  then have s: "py_slice ?t (int (length pre)) (int (length pre + length ?mid)) = ?mid"
    by simp
  show "extract_json loads ?t = loads ?mid"
    unfolding extract_json_def Let_def f r s by simp
next
  assume a: "CHR ''{'' \<notin> set pre \<and> CHR ''}'' \<notin> set rest"
  let ?t = "pre @ CHR ''{'' # rest"
  have f: "py_find ?t (CHR ''{'') = int (length pre)"
    using a by (simp add: py_find_first)
  have "py_rfind ?t (CHR ''}'') \<le> int (length pre) - 1"
  proof (cases "CHR ''}'' \<in> set pre")
    case False
    with a have "CHR ''}'' \<notin> set ?t" by simp
    then show ?thesis by (simp add: py_rfind_absent)
  next
    case True
    then obtain p1 p2 where p: "pre = p1 @ CHR ''}'' # p2" "CHR ''}'' \<notin> set p2"
      by (meson split_list_last)
    then have "py_rfind (p1 @ CHR ''}'' # (p2 @ CHR ''{'' # rest)) (CHR ''}'') = int (length p1)"
      using a by (intro py_rfind_last) simp
    with p show ?thesis by simp
  qed
  moreover have b: "- 1 \<le> py_rfind ?t (CHR ''}'')" by (rule py_rfind_bounds)
  ultimately have "py_slice ?t (int (length pre)) (py_rfind ?t (CHR ''}'') + 1) = []"
    by (intro py_slice_empty) simp_all
  then show "extract_json loads ?t = loads []"
    using f b by (simp add: extract_json_def Let_def)
qed

theorem extract_json_span_witness:
  "CHR ''{'' \<notin> set ''no json here''
   \<and> extract_json json_loads ''no json here'' = None
   \<and> CHR ''{'' \<notin> set ''Answer: '' \<and> CHR ''}'' \<notin> set '' (done)''
   \<and> extract_json json_loads ''Answer: { } (done)'' = Some (JObj [])
   \<and> CHR ''{'' \<notin> set ''} '' \<and> CHR ''}'' \<notin> set '' x''
   \<and> extract_json json_loads ''} { x'' = None"
proof -
  have l1: "json_loads ''{ }'' = Some (JObj [])" by code_simp
  have l2: "json_loads [] = None" by code_simp
  show ?thesis
    using extract_json_span [of "''no json here''" json_loads "''Answer: ''" "'' (done)''" "'' ''" "'' x''"]
      extract_json_span [of "''no json here''" json_loads "''} ''" "'' x''" "'' ''" "'' x''"]
    by (simp add: l1 l2)
qed

text \<open>
  C3 as stated fails: the text \<^verbatim>\<open>{} {}\<close> contains the balanced substring \<^verbatim>\<open>{}\<close>,
  which is valid JSON, yet the span handed to the parser is the whole text, which is
  not, and the extractor returns \<open>None\<close>.
\<close>

theorem extract_json_balanced_counterexample:
  "''{} {}'' = ''{}'' @ '' {}''
   \<and> json_loads ''{}'' = Some (JObj [])
   \<and> extract_json json_loads ''{} {}'' = None"
  by code_simp

section \<open>Properties of the Dispatcher\<close>

subsection \<open>The shuffle permutes\<close>

lemma shuffle_steps_perm:
  "\<forall>i\<in>set is. i < length x \<Longrightarrow>
     mset (shuffle_steps rnd is x) = mset x \<and> length (shuffle_steps rnd is x) = length x"
proof (induction "is" arbitrary: x)
  case Nil
  then show ?case by simp
next
  case (Cons i "is")
  let ?j = "rnd (i + 1) mod (i + 1)"
  let ?y = "x[i := x ! ?j, ?j := x ! i]"
  have i: "i < length x" using Cons.prems by simp
  have "?j < i + 1" by simp
  with i have j: "?j < length x" by linarith
  have m: "mset ?y = mset x" using j i by (rule mset_swap)
  have l: "length ?y = length x" by simp
  have "\<forall>k\<in>set is. k < length ?y" using Cons.prems by simp
  from Cons.IH [OF this] m l show ?case by (simp add: Let_def)
qed

lemma mset_random_shuffle: "mset (random_shuffle rnd x) = mset x"
  unfolding random_shuffle_def by (rule shuffle_steps_perm [THEN conjunct1]) simp

lemma set_random_shuffle: "set (random_shuffle rnd x) = set x"
  using mset_random_shuffle [of rnd x] by (rule mset_eq_setD)

lemma distinct_names_random_shuffle:
  "distinct (map f (random_shuffle rnd x)) = distinct (map f x)"
proof -
  have "mset (map f (random_shuffle rnd x)) = mset (map f x)"
    by (simp add: mset_random_shuffle)
  then show ?thesis by (rule mset_eq_imp_distinct_iff)
qed

subsection \<open>The loops\<close>

lemma try_attempts_None:
  "(fst (try_attempts loads reply cfg as) = None)
     = (\<forall>a\<in>set as. attempt loads reply cfg a = None)"
  by (induction as) (auto simp: Let_def split: option.splits prod.splits)

lemma try_attempts_Some:
  "fst (try_attempts loads reply cfg as) = Some v \<Longrightarrow>
     \<exists>a\<in>set as. attempt loads reply cfg a = Some v"
  by (induction as) (auto simp: Let_def split: option.splits prod.splits)

lemma try_attempts_calls:
  "set (snd (try_attempts loads reply cfg as)) \<subseteq> {name cfg} \<times> set as"
  by (induction as) (auto simp: Let_def split: option.splits prod.splits)

lemma try_attempts_calls_length:
  "length (snd (try_attempts loads reply cfg as)) \<le> length as"
  by (induction as) (auto simp: Let_def split: option.splits prod.splits)

lemma try_attempts_calls_other:
  "name cfg \<noteq> n \<Longrightarrow> filter (\<lambda>c. fst c = n) (snd (try_attempts loads reply cfg as)) = []"
  using try_attempts_calls [of loads reply cfg as] by (auto simp: filter_empty_conv)

lemma try_attempts_calls_count:
  "length (filter (\<lambda>c. fst c = n) (snd (try_attempts loads reply cfg [0..<2])))
     \<le> (if name cfg = n then 2 else 0)"
proof (cases "name cfg = n")
  case True
  have "length (filter (\<lambda>c. fst c = n) (snd (try_attempts loads reply cfg [0..<2])))
          \<le> length (snd (try_attempts loads reply cfg [0..<2]))"
    by (rule length_filter_le)
  also have "\<dots> \<le> length [0..<2]" by (rule try_attempts_calls_length)
  finally show ?thesis using True by simp
next
  case False
  then show ?thesis by (simp add: try_attempts_calls_other)
qed

lemma try_models_None:
  "(fst (try_models loads reply cfgs) = None)
     = (\<forall>cfg\<in>set cfgs. \<forall>a\<in>{0, 1}. attempt loads reply cfg a = None)"
proof (induction cfgs)
  case Nil
  then show ?case by simp
next
  case (Cons cfg cfgs)
  have s: "set [0..<2] = {0, 1::nat}" by auto
  obtain r calls where t: "try_attempts loads reply cfg [0..<2] = (r, calls)"
    by (cases "try_attempts loads reply cfg [0..<2]")
  have "(r = None) = (\<forall>a\<in>{0, 1}. attempt loads reply cfg a = None)"
    using try_attempts_None [of loads reply cfg "[0..<2]"] t s by simp
  with Cons.IH t show ?case
    by (cases r) (auto split: prod.splits)
qed

lemma try_models_Some:
  "fst (try_models loads reply cfgs) = Some v \<Longrightarrow>
     \<exists>cfg\<in>set cfgs. \<exists>a\<in>{0, 1}. attempt loads reply cfg a = Some v"
proof (induction cfgs)
  case Nil
  then show ?case by simp
next
  case (Cons cfg cfgs)
  have s: "set [0..<2] = {0, 1::nat}" by auto
  obtain r calls where t: "try_attempts loads reply cfg [0..<2] = (r, calls)"
    by (cases "try_attempts loads reply cfg [0..<2]")
  show ?case
  proof (cases r)
    case None
    with Cons t show ?thesis by (auto split: prod.splits)
  next
    case (Some w)
    with Cons.prems t have "w = v" by simp
    with Some t have "fst (try_attempts loads reply cfg [0..<2]) = Some v" by simp
    from try_attempts_Some [OF this] s show ?thesis by auto
  qed
qed

lemma try_models_calls_count:
  "length (filter (\<lambda>c. fst c = n) (snd (try_models loads reply cfgs)))
     \<le> 2 * length (filter (\<lambda>cfg. name cfg = n) cfgs)"
proof (induction cfgs)
  case Nil
  then show ?case by simp
next
  case (Cons cfg cfgs)
  obtain r calls where t: "try_attempts loads reply cfg [0..<2] = (r, calls)"
    by (cases "try_attempts loads reply cfg [0..<2]")
  have c: "length (filter (\<lambda>c. fst c = n) calls) \<le> (if name cfg = n then 2 else 0)"
    using try_attempts_calls_count [of n loads reply cfg] t by simp
  show ?case
  proof (cases r)
    case None
    with t Cons.IH c show ?thesis by (auto split: prod.splits)
  next
    case (Some w)
    with t c show ?thesis by (auto split: prod.splits)
  qed
qed

lemma distinct_names_count:
  "distinct (map f xs) \<Longrightarrow> length (filter (\<lambda>x. f x = n) xs) \<le> 1"
proof (induction xs)
  case Nil
  then show ?case by simp
next
  case (Cons x xs)
  show ?case
  proof (cases "f x = n")
    case True
    from Cons.prems have "f x \<notin> f ` set xs" by simp
    with True have "\<forall>y\<in>set xs. f y \<noteq> n" by blast
    then have "filter (\<lambda>x. f x = n) xs = []"
      by (simp add: filter_empty_conv)
    with True show ?thesis by simp
  next
    case False
    with Cons show ?thesis by simp
  qed
qed

lemma parse_value_LBRACE:
  "parse_value (Suc n) (LBRACE # ts) = Some (v, r) \<Longrightarrow> is_dict v"
  by (simp only: parse_value.simps(2) list.case token.case)
     (auto split: list.splits token.splits option.splits prod.splits
           simp del: parse_value.simps parse_members.simps parse_elements.simps)

lemma json_loads_object_texts: "object_texts_give_dicts json_loads"
  unfolding object_texts_give_dicts_def
proof (intro allI impI)
  fix s v
  assume l: "json_loads s = Some v" and h: "s = [] \<or> hd s = CHR ''{''"
  show "is_dict v"
  proof (cases s)
    case Nil
    with l show ?thesis by (simp add: json_loads_def)
  next
    case (Cons c cs)
    with h have c: "c = CHR ''{''" by simp
    have "lex (length s) s = map_option ((#) LBRACE) (lex (length cs) cs)"
      using Cons c by (simp add: is_ws_def)
    then obtain ts where ts: "lex (length s) s = Some (LBRACE # ts)"
      using l by (cases "lex (length cs) cs") (simp_all add: json_loads_def)
    from l ts obtain r where "parse_value (Suc (length (LBRACE # ts))) (LBRACE # ts) = Some (v, r)"
      by (simp add: json_loads_def del: parse_value.simps split: option.splits prod.splits list.splits)
    then show ?thesis by (rule parse_value_LBRACE)
  qed
qed

subsection \<open>What the Extractor can return\<close>

lemma drop_takeWhile_hd:
  assumes "c \<in> set s"
  shows "\<exists>r. drop (length (takeWhile (\<lambda>x. x \<noteq> c) s)) s = c # r"
proof -
  let ?d = "dropWhile (\<lambda>x. x \<noteq> c) s"
  from assms have n: "?d \<noteq> []" by (simp add: dropWhile_eq_Nil_conv)
  then have "\<not> (hd ?d \<noteq> c)" by (rule hd_dropWhile)
  with n have "?d = c # tl ?d" by (cases ?d) simp_all
  then show ?thesis unfolding dropWhile_eq_drop by (rule exI)
qed

lemma py_slice_from_find:
  assumes "c \<in> set s"
  shows "py_slice s (py_find s c) e = [] \<or> hd (py_slice s (py_find s c) e) = c"
proof -
  let ?k = "length (takeWhile (\<lambda>x. x \<noteq> c) s)"
  let ?n = "slice_index (length s) e - ?k"
  from drop_takeWhile_hd [OF assms] obtain r where r: "drop ?k s = c # r" ..
  have "?k \<le> length s" by (rule length_takeWhile_le)
  then have "slice_index (length s) (int ?k) = ?k"
    unfolding slice_index_def by simp
  moreover have "py_find s c = int ?k"
    using assms unfolding py_find_def by simp
  ultimately have "py_slice s (py_find s c) e = take ?n (drop ?k s)"
    unfolding py_slice_def Let_def by simp
  then have t: "py_slice s (py_find s c) e = take ?n (c # r)"
    unfolding r .
  show ?thesis
  proof (cases ?n)
    case 0
    with t show ?thesis by simp
  next
    case (Suc m)
    with t show ?thesis by simp
  qed
qed

lemma object_texts_give_dictsD:
  "object_texts_give_dicts loads \<Longrightarrow> loads s = Some v \<Longrightarrow> s = [] \<or> hd s = CHR ''{''
     \<Longrightarrow> is_dict v"
  unfolding object_texts_give_dicts_def by (erule allE, erule allE, erule impE, assumption, erule mp)

lemma extract_json_is_dict:
  assumes "object_texts_give_dicts loads" and "extract_json loads text = Some v"
  shows "is_dict v"
proof (cases "CHR ''{'' \<in> set text")
  case False
  with assms(2) show ?thesis by (simp add: extract_json_def py_find_absent)
next
  case True
  let ?s = "py_slice text (py_find text (CHR ''{'')) (py_rfind text (CHR ''}'') + 1)"
  from assms(2) have l: "loads ?s = Some v"
    by (simp add: extract_json_def Let_def split: if_splits)
  have h: "?s = [] \<or> hd ?s = CHR ''{''"
    using True by (rule py_slice_from_find)
  from assms(1) l h show ?thesis by (rule object_texts_give_dictsD)
qed

lemma attempt_yields_mapping:
  assumes "object_texts_give_dicts loads" and "known_provider cfg"
  shows "attempt loads reply cfg a = yields_mapping loads reply cfg a"
proof (cases "reply cfg a")
  case None
  then show ?thesis by (simp add: attempt_def yields_mapping_def)
next
  case (Some raw)
  show ?thesis
  proof (cases "extract_json loads raw")
    case None
    with Some show ?thesis by (simp add: attempt_def yields_mapping_def)
  next
    case (Some v)
    with assms(1) have "is_dict v" by (rule extract_json_is_dict)
    then obtain d where "v = JObj d" by (cases v) simp_all
    with Some \<open>reply cfg a = Some raw\<close> assms(2) show ?thesis
      by (simp add: attempt_def yields_mapping_def)
  qed
qed

lemma yields_mapping_is_dict:
  assumes "yields_mapping loads reply cfg a = Some v"
  shows "is_dict v"
proof (cases "reply cfg a")
  case None
  with assms show ?thesis by (simp add: yields_mapping_def)
next
  case (Some raw)
  show ?thesis
  proof (cases "extract_json loads raw")
    case None
    with Some assms show ?thesis by (simp add: yields_mapping_def)
  next
    case (Some w)
    with \<open>reply cfg a = Some raw\<close> assms show ?thesis
      by (cases w) (auto simp: yields_mapping_def)
  qed
qed

lemma AI_MODELS_known: "cfg \<in> set AI_MODELS \<Longrightarrow> known_provider cfg"
  by (auto simp: AI_MODELS_def known_provider_def)

lemma AI_MODELS_distinct: "distinct (map name AI_MODELS)"
  by (simp add: AI_MODELS_def)

lemma heap_shuffle_last:
  "heap_shuffle rnd (h @ [x]) (length h) = h @ [random_shuffle rnd x]"
  by (simp add: heap_shuffle_def)

lemma generate_text_unfold:
  "generate_text loads rnd reply h =
     (case try_models loads reply (random_shuffle rnd (h ! AI_MODELS_ref)) of
        (r, calls) \<Rightarrow>
          ((case r of None \<Rightarrow> Inl RuntimeError | Some v \<Rightarrow> Inr v), calls,
           h @ [random_shuffle rnd (h ! AI_MODELS_ref)]))"
proof -
  let ?ms = "random_shuffle rnd (h ! AI_MODELS_ref)"
  obtain r calls where t: "try_models loads reply ?ms = (r, calls)"
    by (cases "try_models loads reply ?ms")
  have n: "(h @ [?ms]) ! length h = ?ms" by simp
  show ?thesis
    unfolding generate_text_def list_copy_def prod.case Let_def heap_shuffle_last n t
    by (cases r) simp_all
qed

text \<open>
  C4. Take a Dispatcher call made while the catalog holds \<open>AI_MODELS\<close>, with a JSON
  decoder that turns object texts into dicts. Whatever the shuffle draws, no backend is
  called more than twice; the call raises \<^verbatim>\<open>RuntimeError\<close> exactly when no
  backend/attempt combination yields a parsed mapping; and when it returns, it returns a
  mapping that one of the two attempts on one of the backends yields.
\<close>

theorem generate_text_contract:
  assumes c: "h ! AI_MODELS_ref = AI_MODELS"
    and l: "object_texts_give_dicts loads"
  shows "case generate_text loads rnd reply h of
           (res, calls, h') \<Rightarrow>
             (\<forall>cfg\<in>set AI_MODELS. length (filter (\<lambda>c. fst c = name cfg) calls) \<le> 2)
           \<and> ((res = Inl RuntimeError)
                = (\<forall>cfg\<in>set AI_MODELS. \<forall>a\<in>{0, 1}. yields_mapping loads reply cfg a = None))
           \<and> (case res of
                 Inl e \<Rightarrow> e = RuntimeError
               | Inr v \<Rightarrow> is_dict v
                   \<and> (\<exists>cfg\<in>set AI_MODELS. \<exists>a\<in>{0, 1}. yields_mapping loads reply cfg a = Some v))"
proof -
  let ?ms = "random_shuffle rnd AI_MODELS"
  obtain x calls where t: "try_models loads reply ?ms = (x, calls)"
    by (cases "try_models loads reply ?ms")
  have g: "generate_text loads rnd reply h =
             ((case x of None \<Rightarrow> Inl RuntimeError | Some v \<Rightarrow> Inr v), calls, h @ [?ms])"
    using generate_text_unfold [of loads rnd reply h] c t by simp
  have s: "set ?ms = set AI_MODELS" by (rule set_random_shuffle)
  have y: "attempt loads reply cfg a = yields_mapping loads reply cfg a"
    if "cfg \<in> set AI_MODELS" for cfg a
    using l AI_MODELS_known [OF that] by (rule attempt_yields_mapping)
  have "distinct (map name ?ms)"
    using AI_MODELS_distinct by (simp add: distinct_names_random_shuffle)
  then have d: "length (filter (\<lambda>cfg. name cfg = n) ?ms) \<le> 1" for n
    by (rule distinct_names_count)
  have count: "length (filter (\<lambda>c. fst c = n) calls) \<le> 2" for n
    using try_models_calls_count [of n loads reply ?ms] t d [of n] by simp
  have none: "(x = None)
      = (\<forall>cfg\<in>set AI_MODELS. \<forall>a\<in>{0, 1}. yields_mapping loads reply cfg a = None)"
    using try_models_None [of loads reply ?ms] t s y by simp
  have some: "is_dict v
      \<and> (\<exists>cfg\<in>set AI_MODELS. \<exists>a\<in>{0, 1}. yields_mapping loads reply cfg a = Some v)"
    if "x = Some v" for v
  proof -
    from that t have "fst (try_models loads reply ?ms) = Some v" by simp
    from try_models_Some [OF this] s y
    have e: "\<exists>cfg\<in>set AI_MODELS. \<exists>a\<in>{0, 1}. yields_mapping loads reply cfg a = Some v"
      by auto
    then show ?thesis using yields_mapping_is_dict by blast
  qed
  let ?res = "case x of None \<Rightarrow> Inl RuntimeError | Some v \<Rightarrow> Inr v"
  have a: "\<forall>cfg\<in>set AI_MODELS. length (filter (\<lambda>c. fst c = name cfg) calls) \<le> 2"
    using count by blast
  have b: "(?res = Inl RuntimeError)
      = (\<forall>cfg\<in>set AI_MODELS. \<forall>a\<in>{0, 1}. yields_mapping loads reply cfg a = None)"
  proof (cases x)
    case None
    with none show ?thesis by simp
  next
    case (Some v)
    with none have "\<not> (\<forall>cfg\<in>set AI_MODELS. \<forall>a\<in>{0, 1}. yields_mapping loads reply cfg a = None)"
      by simp
    with Some show ?thesis by simp
  qed
  have c: "case ?res of
             Inl e \<Rightarrow> e = RuntimeError
           | Inr v \<Rightarrow> is_dict v
               \<and> (\<exists>cfg\<in>set AI_MODELS. \<exists>a\<in>{0, 1}. yields_mapping loads reply cfg a = Some v)"
  proof (cases x)
    case None
    then show ?thesis by simp
  next
    case (Some v)
    from some [OF this] Some show ?thesis by simp
  qed
  from a b c show ?thesis unfolding g prod.case by (intro conjI)
qed

lemma extract_json_empty_object: "extract_json json_loads ''{}'' = Some (JObj [])"
  by code_simp

theorem generate_text_contract_witness:
  "module_heap ! AI_MODELS_ref = AI_MODELS
   \<and> object_texts_give_dicts json_loads
   \<and> fst (generate_text json_loads (\<lambda>n. 0) (\<lambda>cfg a. Some ''{}'') module_heap) = Inr (JObj [])"
proof -
  let ?reply = "(\<lambda>cfg a. Some ''{}'') :: backend"
  let ?g = "generate_text json_loads (\<lambda>n. 0) ?reply module_heap"
  have c: "module_heap ! AI_MODELS_ref = AI_MODELS"
    by (simp add: module_heap_def AI_MODELS_ref_def)
  have y: "yields_mapping json_loads ?reply cfg a = Some (JObj [])" for cfg a
    by (simp add: yields_mapping_def extract_json_empty_object)
  obtain res calls h' where g: "?g = (res, calls, h')" by (cases ?g)
  have all: "(\<forall>cfg\<in>set AI_MODELS. length (filter (\<lambda>c. fst c = name cfg) calls) \<le> 2)
      \<and> ((res = Inl RuntimeError)
             = (\<forall>cfg\<in>set AI_MODELS. \<forall>a\<in>{0, 1}. yields_mapping json_loads ?reply cfg a = None))
      \<and> (case res of
          Inl e \<Rightarrow> e = RuntimeError
        | Inr v \<Rightarrow> is_dict v
            \<and> (\<exists>cfg\<in>set AI_MODELS. \<exists>a\<in>{0, 1}. yields_mapping json_loads ?reply cfg a = Some v))"
    using generate_text_contract [OF c json_loads_object_texts, where rnd = "\<lambda>n. 0"
        and reply = ?reply]
    unfolding g prod.case .
  note i = all [THEN conjunct2, THEN conjunct1]
  note k = all [THEN conjunct2, THEN conjunct2]
  have m: "hd AI_MODELS \<in> set AI_MODELS" by (simp add: AI_MODELS_def)
  have "\<not> (\<forall>cfg\<in>set AI_MODELS. \<forall>a\<in>{0, 1}. yields_mapping json_loads ?reply cfg a = None)"
  proof
    assume "\<forall>cfg\<in>set AI_MODELS. \<forall>a\<in>{0, 1}. yields_mapping json_loads ?reply cfg a = None"
    then have "\<forall>a\<in>{0, 1}. yields_mapping json_loads ?reply (hd AI_MODELS) a = None"
      using m by (rule bspec)
    then have "yields_mapping json_loads ?reply (hd AI_MODELS) 0 = None" by simp
    then show False unfolding y by simp
  qed
  with i have n: "res \<noteq> Inl RuntimeError" by simp
  have "res = Inr (JObj [])"
  proof (cases res)
    case (Inl e)
    with k n show ?thesis by simp
  next
    case (Inr v)
    with k have "\<exists>cfg\<in>set AI_MODELS. \<exists>a\<in>{0, 1}. yields_mapping json_loads ?reply cfg a = Some v"
      by simp
    then have "v = JObj []" unfolding y by auto
    with Inr show ?thesis by simp
  qed
  then have "fst ?g = Inr (JObj [])" unfolding g by simp
  with c json_loads_object_texts show ?thesis by (intro conjI)
qed

subsection \<open>The order of the calls\<close>

lemma attempt_calls_Cons:
  "attempt_calls cfg (a # as)
     = (if known_provider cfg then [(name cfg, a)] else []) @ attempt_calls cfg as"
  by (simp add: attempt_calls_def)

lemma try_attempts_exhausted:
  "fst (try_attempts loads reply cfg as) = None \<Longrightarrow>
     snd (try_attempts loads reply cfg as) = attempt_calls cfg as"
proof (induction as)
  case Nil
  then show ?case by (simp add: attempt_calls_def)
next
  case (Cons a as)
  obtain x calls where t: "try_attempts loads reply cfg as = (x, calls)"
    by (cases "try_attempts loads reply cfg as")
  show ?case
  proof (cases "attempt loads reply cfg a")
    case None
    with Cons t show ?thesis by (simp add: attempt_calls_Cons Let_def)
  next
    case (Some v)
    with Cons.prems show ?thesis by (simp add: Let_def)
  qed
qed

lemma try_attempts_take:
  "take (length (snd (try_attempts loads reply cfg as))) (attempt_calls cfg as)
     = snd (try_attempts loads reply cfg as)"
proof (induction as)
  case Nil
  then show ?case by simp
next
  case (Cons a as)
  obtain x calls where t: "try_attempts loads reply cfg as = (x, calls)"
    by (cases "try_attempts loads reply cfg as")
  show ?case
  proof (cases "attempt loads reply cfg a")
    case None
    with Cons t show ?thesis by (simp add: attempt_calls_Cons Let_def)
  next
    case (Some v)
    then show ?thesis by (simp add: attempt_calls_Cons Let_def)
  qed
qed

lemma schedule_Cons: "schedule (cfg # ms) = attempt_calls cfg [0..<2] @ schedule ms"
  by (simp add: schedule_def)

lemma try_attempts_Some_calls:
  "fst (try_attempts loads reply cfg as) = Some v \<Longrightarrow> snd (try_attempts loads reply cfg as) \<noteq> []"
proof (induction as)
  case Nil
  then show ?case by simp
next
  case (Cons a as)
  obtain x calls where t: "try_attempts loads reply cfg as = (x, calls)"
    by (cases "try_attempts loads reply cfg as")
  show ?case
  proof (cases "attempt loads reply cfg a")
    case None
    with Cons t show ?thesis by (simp add: Let_def)
  next
    case (Some w)
    then have "known_provider cfg"
      by (cases "known_provider cfg") (simp_all add: attempt_def)
    with Some show ?thesis by (simp add: Let_def)
  qed
qed

lemma try_models_Some_calls:
  "fst (try_models loads reply ms) = Some v \<Longrightarrow> snd (try_models loads reply ms) \<noteq> []"
proof (induction ms)
  case Nil
  then show ?case by simp
next
  case (Cons cfg ms)
  obtain x calls where t: "try_attempts loads reply cfg [0..<2] = (x, calls)"
    by (cases "try_attempts loads reply cfg [0..<2]")
  obtain y calls' where m: "try_models loads reply ms = (y, calls')"
    by (cases "try_models loads reply ms")
  show ?case
  proof (cases x)
    case None
    with Cons t m show ?thesis by simp
  next
    case (Some w)
    with t have "calls \<noteq> []"
      using try_attempts_Some_calls [of loads reply cfg "[0..<2]" w] by simp
    with t Some show ?thesis by simp
  qed
qed

lemma try_models_exhausted:
  "fst (try_models loads reply ms) = None \<Longrightarrow> snd (try_models loads reply ms) = schedule ms"
proof (induction ms)
  case Nil
  then show ?case by (simp add: schedule_def)
next
  case (Cons cfg ms)
  obtain x calls where t: "try_attempts loads reply cfg [0..<2] = (x, calls)"
    by (cases "try_attempts loads reply cfg [0..<2]")
  obtain y calls' where m: "try_models loads reply ms = (y, calls')"
    by (cases "try_models loads reply ms")
  show ?case
  proof (cases x)
    case None
    with t have "calls = attempt_calls cfg [0..<2]"
      using try_attempts_exhausted [of loads reply cfg "[0..<2]"] by simp
    with Cons t m None show ?thesis by (simp add: schedule_Cons)
  next
    case (Some v)
    with Cons.prems t show ?thesis by simp
  qed
qed

lemma try_models_take_schedule:
  "take (length (snd (try_models loads reply ms))) (schedule ms) = snd (try_models loads reply ms)"
proof (induction ms)
  case Nil
  then show ?case by simp
next
  case (Cons cfg ms)
  obtain x calls where t: "try_attempts loads reply cfg [0..<2] = (x, calls)"
    by (cases "try_attempts loads reply cfg [0..<2]")
  obtain y calls' where m: "try_models loads reply ms = (y, calls')"
    by (cases "try_models loads reply ms")
  have k: "take (length calls) (attempt_calls cfg [0..<2]) = calls"
    using try_attempts_take [of loads reply cfg "[0..<2]"] t by simp
  show ?case
  proof (cases x)
    case None
    with t have e: "attempt_calls cfg [0..<2] = calls"
      using try_attempts_exhausted [of loads reply cfg "[0..<2]"] by simp
    have "take (length (calls @ calls')) (calls @ schedule ms) = calls @ calls'"
      using Cons m by simp
    with t m None e show ?thesis by (simp add: schedule_Cons)
  next
    case (Some v)
    have "length (take (length calls) (attempt_calls cfg [0..<2])) = length calls"
      using k by simp
    then have "length calls \<le> length (attempt_calls cfg [0..<2])" by simp
    then have "take (length calls) (attempt_calls cfg [0..<2] @ schedule ms) = calls"
      using k by simp
    with t Some show ?thesis by (simp add: schedule_Cons)
  qed
qed


lemma generate_text_result:
  "generate_text loads rnd reply h =
     ((case fst (try_models loads reply (random_shuffle rnd (h ! AI_MODELS_ref))) of
         None \<Rightarrow> Inl RuntimeError | Some v \<Rightarrow> Inr v),
      snd (try_models loads reply (random_shuffle rnd (h ! AI_MODELS_ref))),
      h @ [random_shuffle rnd (h ! AI_MODELS_ref)])"
  unfolding generate_text_unfold
  by (cases "try_models loads reply (random_shuffle rnd (h ! AI_MODELS_ref))") simp

text \<open>
  C9 (as amended). A Dispatcher call shuffles a fresh copy of the catalog list and tries
  the backends in the order of that copy. Every list object that existed before the
  call, the shared catalog among them, is the same after it. The call allocates one new
  list, which is the catalog as \<^verbatim>\<open>random.shuffle\<close> permutes it with the call's draws.
  The calls made to the backends are an initial part of the full pass over that shuffled
  copy: the whole pass when the call raises \<^verbatim>\<open>RuntimeError\<close>, a non-empty part of it when
  the call returns.
\<close>

theorem generate_text_shuffles_copy:
  assumes "AI_MODELS_ref < length h"
  shows "case generate_text loads rnd reply h of
           (res, calls, h') \<Rightarrow>
             h' ! AI_MODELS_ref = h ! AI_MODELS_ref
           \<and> take (length h) h' = h
           \<and> length h' = Suc (length h)
           \<and> h' ! length h = random_shuffle rnd (h ! AI_MODELS_ref)
           \<and> mset (h' ! length h) = mset (h ! AI_MODELS_ref)
           \<and> take (length calls) (schedule (h' ! length h)) = calls
           \<and> (if res = Inl RuntimeError then calls = schedule (h' ! length h)
                else calls \<noteq> [])"
proof -
  let ?ms = "random_shuffle rnd (h ! AI_MODELS_ref)"
  let ?t = "try_models loads reply ?ms"
  have a: "(h @ [?ms]) ! AI_MODELS_ref = h ! AI_MODELS_ref"
    using assms by (simp add: nth_append)
  have b: "(h @ [?ms]) ! length h = ?ms" by simp
  have c: "mset ?ms = mset (h ! AI_MODELS_ref)" by (rule mset_random_shuffle)
  have d: "take (length (snd ?t)) (schedule ?ms) = snd ?t"
    by (rule try_models_take_schedule)
  have e: "if (case fst ?t of None \<Rightarrow> Inl RuntimeError | Some v \<Rightarrow> Inr v) = Inl RuntimeError
           then snd ?t = schedule ?ms else snd ?t \<noteq> []"
  proof (cases "fst ?t")
    case None
    then show ?thesis using try_models_exhausted [of loads reply ?ms] by simp
  next
    case (Some v)
    have "snd ?t \<noteq> []" using Some by (rule try_models_Some_calls)
    with Some show ?thesis by simp
  qed
  show ?thesis
    unfolding generate_text_result prod.case b
    using a c d e by (intro conjI) simp_all
qed

lemma shuffle_zero:
  "random_shuffle (\<lambda>n. 0) AI_MODELS =
     [\<lparr>name = ''gemma-3-12b-it'', day_limit_requests = 14400, is_visual = False,
        provider = ''Google'', type = ''basic''\<rparr>,
      \<lparr>name = ''gemini-2.0-flash-lite'', day_limit_requests = 1500, is_visual = False,
        provider = ''Google'', type = ''premium''\<rparr>,
      \<lparr>name = ''gemini-2.0-flash'', day_limit_requests = 1500, is_visual = False,
        provider = ''Google'', type = ''premium''\<rparr>,
      \<lparr>name = ''llama-3.3-70b-versatile'', day_limit_requests = 1000, is_visual = False,
        provider = ''Groq'', type = ''premium''\<rparr>,
      \<lparr>name = ''qwen/qwen3-32b'', day_limit_requests = 1000, is_visual = False,
        provider = ''Groq'', type = ''premium''\<rparr>,
      \<lparr>name = ''gemma-3-27b-it'', day_limit_requests = 14400, is_visual = True,
        provider = ''Google'', type = ''premium''\<rparr>]"
  by (simp add: random_shuffle_def AI_MODELS_def upt_rec)

lemma schedule_shuffle_zero:
  "schedule (random_shuffle (\<lambda>n. 0) AI_MODELS) =
     [(''gemma-3-12b-it'', 0), (''gemma-3-12b-it'', 1),
      (''gemini-2.0-flash-lite'', 0), (''gemini-2.0-flash-lite'', 1),
      (''gemini-2.0-flash'', 0), (''gemini-2.0-flash'', 1),
      (''llama-3.3-70b-versatile'', 0), (''llama-3.3-70b-versatile'', 1),
      (''qwen/qwen3-32b'', 0), (''qwen/qwen3-32b'', 1),
      (''gemma-3-27b-it'', 0), (''gemma-3-27b-it'', 1)]"
  unfolding shuffle_zero
  by (simp add: schedule_def attempt_calls_def known_provider_def upt_rec)

lemma no_reply_exhausts:
  "fst (generate_text loads rnd (\<lambda>cfg a. None) h) = Inl RuntimeError"
proof -
  have "attempt loads (\<lambda>cfg a. None) cfg a = None" for cfg a
    by (simp add: attempt_def)
  then have "fst (try_models loads (\<lambda>cfg a. None) ms) = None" for ms
    by (simp add: try_models_None)
  then show ?thesis by (simp add: generate_text_result)
qed

theorem generate_text_shuffles_copy_witness:
  "AI_MODELS_ref < length module_heap
   \<and> snd (snd (generate_text json_loads (\<lambda>n. 0) (\<lambda>cfg a. None) module_heap)) ! AI_MODELS_ref
       = AI_MODELS
   \<and> fst (snd (generate_text json_loads (\<lambda>n. 0) (\<lambda>cfg a. None) module_heap))
       = [(''gemma-3-12b-it'', 0), (''gemma-3-12b-it'', 1),
          (''gemini-2.0-flash-lite'', 0), (''gemini-2.0-flash-lite'', 1),
          (''gemini-2.0-flash'', 0), (''gemini-2.0-flash'', 1),
          (''llama-3.3-70b-versatile'', 0), (''llama-3.3-70b-versatile'', 1),
          (''qwen/qwen3-32b'', 0), (''qwen/qwen3-32b'', 1),
          (''gemma-3-27b-it'', 0), (''gemma-3-27b-it'', 1)]"
proof -
  let ?g = "generate_text json_loads (\<lambda>n. 0) (\<lambda>cfg a. None) module_heap"
  have r: "AI_MODELS_ref < length module_heap"
    by (simp add: module_heap_def AI_MODELS_ref_def)
  have m: "module_heap ! AI_MODELS_ref = AI_MODELS" "length module_heap = 1"
    by (simp_all add: module_heap_def AI_MODELS_ref_def)
  obtain res calls h' where g: "?g = (res, calls, h')" by (cases ?g)
  have res: "res = Inl RuntimeError"
    using no_reply_exhausts [of json_loads "\<lambda>n. 0" module_heap] unfolding g by simp
  have all: "h' ! AI_MODELS_ref = module_heap ! AI_MODELS_ref
           \<and> take (length module_heap) h' = module_heap
           \<and> length h' = Suc (length module_heap)
           \<and> h' ! length module_heap = random_shuffle (\<lambda>n. 0) (module_heap ! AI_MODELS_ref)
           \<and> mset (h' ! length module_heap) = mset (module_heap ! AI_MODELS_ref)
           \<and> take (length calls) (schedule (h' ! length module_heap)) = calls
           \<and> (if res = Inl RuntimeError then calls = schedule (h' ! length module_heap)
                else calls \<noteq> [])"
    using generate_text_shuffles_copy [OF r, where loads = json_loads and rnd = "\<lambda>n. 0"
        and reply = "\<lambda>cfg a. None"]
    unfolding g prod.case .
  then have 1: "h' ! AI_MODELS_ref = AI_MODELS"
    and 2: "h' ! 1 = random_shuffle (\<lambda>n. 0) AI_MODELS"
    and 3: "calls = schedule (h' ! 1)"
    unfolding m res by simp_all
  from 3 have "calls = schedule (random_shuffle (\<lambda>n. 0) AI_MODELS)" unfolding 2 .
  then have "fst (snd ?g) = schedule (random_shuffle (\<lambda>n. 0) AI_MODELS)"
    unfolding g by simp
  moreover have "snd (snd ?g) ! AI_MODELS_ref = AI_MODELS" unfolding g using 1 by simp
  ultimately show ?thesis using r unfolding schedule_shuffle_zero by (intro conjI)
qed

text \<open>
  C9 as stated fails: after a call whose draws are all 0, the shared catalog is in its
  original order, while the copy the call worked on is rotated by one place.
\<close>

theorem generate_text_mutates_catalog_counterexample:
  "snd (snd (generate_text json_loads (\<lambda>n. 0) (\<lambda>cfg a. None) module_heap)) ! AI_MODELS_ref
     = module_heap ! AI_MODELS_ref
   \<and> map name (snd (snd (generate_text json_loads (\<lambda>n. 0) (\<lambda>cfg a. None) module_heap)) ! 1)
     = [''gemma-3-12b-it'', ''gemini-2.0-flash-lite'', ''gemini-2.0-flash'',
        ''llama-3.3-70b-versatile'', ''qwen/qwen3-32b'', ''gemma-3-27b-it'']
   \<and> map name (module_heap ! AI_MODELS_ref)
     = [''gemma-3-27b-it'', ''gemma-3-12b-it'', ''gemini-2.0-flash-lite'', ''gemini-2.0-flash'',
        ''llama-3.3-70b-versatile'', ''qwen/qwen3-32b'']"
proof (intro conjI)
  show "snd (snd (generate_text json_loads (\<lambda>n. 0) (\<lambda>cfg a. None) module_heap)) ! AI_MODELS_ref
     = module_heap ! AI_MODELS_ref"
    by (simp add: generate_text_result module_heap_def AI_MODELS_ref_def)
  show "map name (snd (snd (generate_text json_loads (\<lambda>n. 0) (\<lambda>cfg a. None) module_heap)) ! 1)
     = [''gemma-3-12b-it'', ''gemini-2.0-flash-lite'', ''gemini-2.0-flash'',
        ''llama-3.3-70b-versatile'', ''qwen/qwen3-32b'', ''gemma-3-27b-it'']"
    by (simp add: generate_text_result module_heap_def AI_MODELS_ref_def shuffle_zero)
  show "map name (module_heap ! AI_MODELS_ref)
     = [''gemma-3-27b-it'', ''gemma-3-12b-it'', ''gemini-2.0-flash-lite'', ''gemini-2.0-flash'',
        ''llama-3.3-70b-versatile'', ''qwen/qwen3-32b'']"
    by (simp add: module_heap_def AI_MODELS_ref_def AI_MODELS_def)
qed

section \<open>Properties of the Lesson Generation Orchestrator\<close>

lemma loop_inv_ok: "loop_inv n j \<Longrightarrow> ok_snapshot (row j)"
  by (simp add: loop_inv_def synced_def ok_snapshot_def)

lemma decrement_total_inv:
  assumes "loop_inv (Suc n) j"
  shows "loop_inv n (decrement_total j)"
    and "snapshots (decrement_total j) = snapshots j @ [row (decrement_total j)]"
    and "progress_step (row j) (row (decrement_total j))"
    and "blocks (decrement_total j) = blocks j"
  using assms
  by (simp_all add: loop_inv_def synced_def decrement_total_def save_status_def Let_def
      progress_step_def)

lemma block_saved_inv:
  assumes "loop_inv (Suc n) j"
  shows "loop_inv n (block_saved i b j)"
    and "snapshots (block_saved i b j) = snapshots j @ [row (block_saved i b j)]"
    and "progress_step (row j) (row (block_saved i b j))"
  using assms
  by (simp_all add: loop_inv_def synced_def block_saved_def save_status_def Let_def
      progress_step_def)

lemma loop_inv_generated: "loop_inv n (j\<lparr>generated := g\<rparr>) = loop_inv n j"
  by (simp add: loop_inv_def synced_def)

lemma process_hint_cases:
  "process_hint w lid i bt j = Inl (TypeError, j)
   \<or> process_hint w lid i bt j = Inr (decrement_total (j\<lparr>generated := generated j @ [i]\<rparr>))
   \<or> (\<exists>b. process_hint w lid i bt j = Inr (block_saved i b (j\<lparr>generated := generated j @ [i]\<rparr>)))"
  by (auto simp add: process_hint_def Let_def split: sum.split option.split prod.split)

lemma process_hint_inv:
  assumes "loop_inv (Suc n) j"
  shows "(\<exists>e. process_hint w lid i bt j = Inl (e, j))
     \<or> (\<exists>j'. process_hint w lid i bt j = Inr j' \<and> loop_inv n j'
           \<and> snapshots j' = snapshots j @ [row j'] \<and> progress_step (row j) (row j'))"
proof -
  let ?j1 = "j\<lparr>generated := generated j @ [i]\<rparr>"
  have i1: "loop_inv (Suc n) ?j1" using assms by (simp add: loop_inv_generated)
  have s1: "snapshots ?j1 = snapshots j" "row ?j1 = row j" by simp_all
  from process_hint_cases [of w lid i bt j] show ?thesis
  proof (elim disjE exE)
    assume "process_hint w lid i bt j = Inl (TypeError, j)"
    then show ?thesis by simp
  next
    assume p: "process_hint w lid i bt j = Inr (decrement_total ?j1)"
    from decrement_total_inv(1-3) [OF i1] show ?thesis
      unfolding p s1 by simp
  next
    fix b
    assume p: "process_hint w lid i bt j = Inr (block_saved i b ?j1)"
    from block_saved_inv [OF i1, of i b] show ?thesis
      unfolding p s1 by simp
  qed
qed

lemma process_hints_inv:
  assumes "loop_inv (length hs) j"
  shows "\<exists>new. snapshots (final_job (process_hints w lid i hs j)) = snapshots j @ new
           \<and> successively progress_step (row j # new)
           \<and> list_all ok_snapshot new
           \<and> row (final_job (process_hints w lid i hs j)) = last (row j # new)
           \<and> (\<exists>n. loop_inv n (final_job (process_hints w lid i hs j)))
           \<and> (\<forall>j'. process_hints w lid i hs j = Inr j' \<longrightarrow> loop_inv 0 j')"
  using assms
proof (induction hs arbitrary: i j)
  case Nil
  then have "loop_inv 0 (final_job (process_hints w lid i [] j))"
    by (simp add: final_job_def)
  then have "\<exists>n. loop_inv n (final_job (process_hints w lid i [] j))" ..
  with Nil show ?case by (intro exI [of _ "[]"]) (simp add: final_job_def)
next
  case (Cons bt hs)
  from Cons.prems have inv: "loop_inv (Suc (length hs)) j" by simp
  from process_hint_inv [OF inv, of w lid i bt] show ?case
  proof (elim disjE exE conjE)
    fix e
    assume p: "process_hint w lid i bt j = Inl (e, j)"
    then have f: "final_job (process_hints w lid i (bt # hs) j) = j"
      by (simp add: final_job_def)
    have "\<exists>n. loop_inv n j" using inv ..
    then show ?thesis unfolding f using p by (intro exI [of _ "[]"]) simp
  next
    fix j'
    assume p: "process_hint w lid i bt j = Inr j'"
      and i': "loop_inv (length hs) j'"
      and s': "snapshots j' = snapshots j @ [row j']"
      and st: "progress_step (row j) (row j')"
    have e: "process_hints w lid i (bt # hs) j = process_hints w lid (Suc i) hs j'"
      using p by simp
    from Cons.IH [OF i', of "Suc i"] obtain new where
      n1: "snapshots (final_job (process_hints w lid (Suc i) hs j')) = snapshots j' @ new"
      and n2: "successively progress_step (row j' # new)"
      and n3: "list_all ok_snapshot new"
      and n4: "row (final_job (process_hints w lid (Suc i) hs j')) = last (row j' # new)"
      and n5: "\<exists>n. loop_inv n (final_job (process_hints w lid (Suc i) hs j'))"
      and n6: "\<forall>k. process_hints w lid (Suc i) hs j' = Inr k \<longrightarrow> loop_inv 0 k"
      by auto
    have o: "ok_snapshot (row j')" using i' by (rule loop_inv_ok)
    show ?thesis
      unfolding e
      using n1 n2 n3 n4 n5 n6 s' st o
      by (intro exI [of _ "row j' # new"]) simp
  qed
qed

lemma status_save:
  "snapshots (save_status [F_status] (j\<lparr>mem := (mem j)\<lparr>status := st\<rparr>\<rparr>))
     = snapshots j @ [(row j)\<lparr>status := st\<rparr>]"
  "row (save_status [F_status] (j\<lparr>mem := (mem j)\<lparr>status := st\<rparr>\<rparr>)) = (row j)\<lparr>status := st\<rparr>"
  "blocks (save_status [F_status] (j\<lparr>mem := (mem j)\<lparr>status := st\<rparr>\<rparr>)) = blocks j"
  "generated (save_status [F_status] (j\<lparr>mem := (mem j)\<lparr>status := st\<rparr>\<rparr>)) = generated j"
  by (simp_all add: save_status_def Let_def)

lemma fail_job_simps:
  "snapshots (fail_job j) = snapshots j @ [(row j)\<lparr>status := FAILED\<rparr>]"
  "row (fail_job j) = (row j)\<lparr>status := FAILED\<rparr>"
  "blocks (fail_job j) = blocks j"
  "generated (fail_job j) = generated j"
  unfolding fail_job_def by (rule status_save)+

lemma start_job_simps:
  "row (start_job row0 tbl)
     = \<lparr>status = IN_PROGRESS, total = (case row0 of None \<Rightarrow> 0 | Some r0 \<Rightarrow> total r0),
        completed = 0\<rparr>"
  "mem (start_job row0 tbl) = row (start_job row0 tbl)"
  "snapshots (start_job row0 tbl)
     = (case row0 of None \<Rightarrow> [\<lparr>status = IN_PROGRESS, total = 0, completed = 0\<rparr>] | Some r0 \<Rightarrow> [])
         @ [row (start_job row0 tbl)]"
  "blocks (start_job row0 tbl) = tbl"
  "generated (start_job row0 tbl) = []"
  by (cases row0; simp add: start_job_def save_status_def Let_def)+

lemma total_save:
  "row (save_status [F_total] (j\<lparr>mem := (mem j)\<lparr>total := n\<rparr>\<rparr>)) = (row j)\<lparr>total := n\<rparr>"
  "mem (save_status [F_total] (j\<lparr>mem := (mem j)\<lparr>total := n\<rparr>\<rparr>)) = (mem j)\<lparr>total := n\<rparr>"
  "snapshots (save_status [F_total] (j\<lparr>mem := (mem j)\<lparr>total := n\<rparr>\<rparr>))
     = snapshots j @ [(row j)\<lparr>total := n\<rparr>]"
  "blocks (save_status [F_total] (j\<lparr>mem := (mem j)\<lparr>total := n\<rparr>\<rparr>)) = blocks j"
  "generated (save_status [F_total] (j\<lparr>mem := (mem j)\<lparr>total := n\<rparr>\<rparr>)) = generated j"
  by (simp_all add: save_status_def Let_def)




lemma task_unfold:
  assumes "lesson_id \<in> set lessons"
  shows "generate_lesson_task w lessons lesson_id row0 tbl =
     Some (case outline_hints (env_loads w) (env_generate w 0) of
              Outline_Raised e \<Rightarrow> (Caught e, fail_job ((start_job row0 tbl)\<lparr>generated := [0]\<rparr>))
            | Parse_Failed \<Rightarrow> (Returned_Failed, fail_job ((start_job row0 tbl)\<lparr>generated := [0]\<rparr>))
            | Not_A_List \<Rightarrow> (Returned_Failed, fail_job ((start_job row0 tbl)\<lparr>generated := [0]\<rparr>))
            | Hints hs \<Rightarrow>
                (case process_hints w lesson_id 1 hs
                        (save_status [F_total]
                           ((start_job row0 tbl)
                              \<lparr>generated := [0],
                               mem := (mem (start_job row0 tbl))\<lparr>total := int (length hs)\<rparr>\<rparr>)) of
                   Inl (e, j3) \<Rightarrow> (Caught e, fail_job j3)
                 | Inr j3 \<Rightarrow>
                     (Finalized,
                      save_status [F_status]
                        (j3\<lparr>blocks := fst (reconcile (env_save_order w) lesson_id (blocks j3)),
                            mem := (mem j3)\<lparr>status := final_status (mem j3)\<rparr>\<rparr>))))"
  using assms
  by (cases "outline_hints (env_loads w) (env_generate w 0)")
     (simp_all add: generate_lesson_task_def Let_def split: sum.split prod.split)

lemma outline_set_inv:
  "loop_inv (length hs)
     (save_status [F_total]
        ((start_job row0 tbl)
           \<lparr>generated := [0], mem := (mem (start_job row0 tbl))\<lparr>total := int (length hs)\<rparr>\<rparr>))"
  by (simp add: loop_inv_def synced_def save_status_def Let_def start_job_simps)








lemma finalized_run:
  assumes "generate_lesson_task w lessons lesson_id row0 tbl = Some (Finalized, j)"
  shows "\<exists>j3. loop_inv 0 j3 \<and> row j = (row j3)\<lparr>status := final_status (mem j3)\<rparr>
           \<and> generated j = generated j3"
proof -
  have l: "lesson_id \<in> set lessons"
    using assms by (cases "lesson_id \<in> set lessons") (simp_all add: generate_lesson_task_def)
  note u = task_unfold [OF l, of w row0 tbl]
  show ?thesis
  proof (cases "outline_hints (env_loads w) (env_generate w 0)")
    case (Hints hs)
    let ?j2 = "save_status [F_total]
        ((start_job row0 tbl)
           \<lparr>generated := [0], mem := (mem (start_job row0 tbl))\<lparr>total := int (length hs)\<rparr>\<rparr>)"
    have inv2: "loop_inv (length hs) ?j2" by (rule outline_set_inv)
    show ?thesis
    proof (cases "process_hints w lesson_id 1 hs ?j2")
      case (Inl x)
      with u Hints assms show ?thesis by (cases x) simp
    next
      case (Inr j3)
      from process_hints_inv [OF inv2, of w lesson_id 1] Inr have "loop_inv 0 j3" by auto
      moreover from u Hints Inr assms
      have "j = save_status [F_status]
                  (j3\<lparr>blocks := fst (reconcile (env_save_order w) lesson_id (blocks j3)),
                      mem := (mem j3)\<lparr>status := final_status (mem j3)\<rparr>\<rparr>)"
        by simp
      then have "row j = (row j3)\<lparr>status := final_status (mem j3)\<rparr> \<and> generated j = generated j3"
        by (simp add: save_status_def Let_def)
      ultimately show ?thesis by (intro exI [of _ j3]) simp
    qed
  qed (use u assms in simp_all)
qed



text \<open>
  In a run that reaches finalization, every hint has either added to \<open>completed\<close> or taken
  from \<open>total\<close>, so the two are equal and the status is \<open>DONE\<close>.
\<close>

lemma finalized_is_done:
  assumes "generate_lesson_task w lessons lesson_id row0 tbl = Some (Finalized, j)"
  shows "completed (row j) = total (row j) \<and> status (row j) = DONE"
proof -
  from finalized_run [OF assms] obtain j3 where
    i: "loop_inv 0 j3" and r: "row j = (row j3)\<lparr>status := final_status (mem j3)\<rparr>"
    by auto
  from i have "total (row j3) = total (mem j3)" "completed (row j3) = completed (mem j3)"
    "completed (mem j3) = total (mem j3)"
    by (simp_all add: loop_inv_def synced_def)
  with r show ?thesis by (simp add: final_status_def)
qed

subsection \<open>The per-section step, the outline and the renumbering\<close>








text \<open>
  C6 (as amended). When the outline result is a mapping: if its \<^verbatim>\<open>blocks\<close> field is present
  and is not a list, the job ends \<open>FAILED\<close> at once, with no Dispatcher call for a section
  and the blocks untouched; if the field is missing, the outline counts as empty: again
  no Dispatcher call for a section is made, and the job is finalized as \<open>DONE\<close> with
  \<open>total = 0\<close>.
\<close>

theorem outline_without_list:
  assumes l: "lesson_id \<in> set lessons"
    and g: "env_generate w 0 = Inr (JObj d)"
  shows "case map_of d ''blocks'' of
           None \<Rightarrow>
             (\<exists>j. generate_lesson_task w lessons lesson_id row0 tbl = Some (Finalized, j)
                \<and> status (row j) = DONE \<and> total (row j) = 0 \<and> completed (row j) = 0
                \<and> generated j = [0])
         | Some v \<Rightarrow>
             if is_list v then True
             else (\<exists>j. generate_lesson_task w lessons lesson_id row0 tbl
                          = Some (Returned_Failed, j)
                     \<and> status (row j) = FAILED \<and> generated j = [0] \<and> blocks j = tbl)"
proof (cases "map_of d ''blocks''")
  case None
  then have o: "outline_hints (env_loads w) (env_generate w 0) = Hints []"
    by (simp add: outline_hints_def g dict_get_default_def)
  show ?thesis
    unfolding None option.case task_unfold [OF l] o
    by (simp add: save_status_def Let_def start_job_simps final_status_def)
next
  case (Some v)
  show ?thesis
  proof (cases "is_list v")
    case True
    with Some show ?thesis by simp
  next
    case False
    then have o: "outline_hints (env_loads w) (env_generate w 0) = Not_A_List"
      by (cases v) (simp_all add: outline_hints_def g dict_get_default_def Some)
    show ?thesis
      unfolding Some option.case task_unfold [OF l] o
      using False by (simp add: fail_job_simps start_job_simps)
  qed
qed

theorem outline_without_list_witness:
  "7 \<in> set [7::nat]
   \<and> env_generate no_blocks_env 0 = Inr (JObj [])
   \<and> (\<exists>j. generate_lesson_task no_blocks_env [7] 7 None [] = Some (Finalized, j)
          \<and> status (row j) = DONE \<and> total (row j) = 0 \<and> completed (row j) = 0
          \<and> generated j = [0])"
proof -
  have l: "7 \<in> set [7::nat]" by simp
  have g: "env_generate no_blocks_env 0 = Inr (JObj [])" by (simp add: no_blocks_env_def)
  from outline_without_list [OF l g, of None "[]"]
  have "\<exists>j. generate_lesson_task no_blocks_env [7] 7 None [] = Some (Finalized, j)
          \<and> status (row j) = DONE \<and> total (row j) = 0 \<and> completed (row j) = 0
          \<and> generated j = [0]"
    by simp
  with l g show ?thesis by (intro conjI)
qed

text \<open>
  C6 as stated fails: the outline result is the empty mapping, which lacks the hint list,
  and the job ends \<open>DONE\<close>, not \<open>FAILED\<close>.
\<close>

theorem missing_hint_list_counterexample:
  "env_generate no_blocks_env 0 = Inr (JObj [])
   \<and> map_of ([] :: (string \<times> json) list) ''blocks'' = None
   \<and> generate_lesson_task no_blocks_env [7] 7 None [] =
     Some (Finalized,
       \<lparr>mem = \<lparr>status = DONE, total = 0, completed = 0\<rparr>,
        row = \<lparr>status = DONE, total = 0, completed = 0\<rparr>,
        snapshots = [\<lparr>status = IN_PROGRESS, total = 0, completed = 0\<rparr>,
                     \<lparr>status = IN_PROGRESS, total = 0, completed = 0\<rparr>,
                     \<lparr>status = IN_PROGRESS, total = 0, completed = 0\<rparr>,
                     \<lparr>status = DONE, total = 0, completed = 0\<rparr>],
        blocks = [], generated = [0]\<rparr>)"
  by (simp add: generate_lesson_task_def no_blocks_env_def outline_hints_def
      dict_get_default_def start_job_def save_status_def Let_def reconcile_def
      ordered_blocks_def final_status_def)

lemma fix_orders_noop:
  "map order bs = map int [idx..<idx + length bs] \<Longrightarrow> fix_orders ok idx bs tbl = (tbl, [])"
proof (induction bs arbitrary: idx)
  case Nil
  then show ?case by simp
next
  case (Cons b bs)
  have q: "idx + length (b # bs) = Suc idx + length bs" by simp
  have e: "[idx..<Suc idx + length bs] = idx # [Suc idx..<Suc idx + length bs]"
    by (rule upt_conv_Cons) simp
  have "order b # map order bs = int idx # map int [Suc idx..<Suc idx + length bs]"
    using Cons.prems unfolding q e by (simp only: list.map)
  then have o: "order b = int idx"
    and r: "map order bs = map int [Suc idx..<Suc idx + length bs]"
    by (simp_all only: list.inject)
  from Cons.IH [OF r] o show ?case by simp
qed

text \<open>
  C8. If the blocks of the lesson, ordered by \<open>(order, id)\<close>, are numbered 1 to N, the
  renumbering attempts no write and returns the table as it is, whether or not a write
  would have succeeded.
\<close>

theorem reconcile_contiguous_noop:
  assumes "map order (ordered_blocks lesson_id tbl)
             = map int [1..<Suc (length (ordered_blocks lesson_id tbl))]"
  shows "reconcile ok lesson_id tbl = (tbl, [])"
proof -
  from assms have "map order (ordered_blocks lesson_id tbl)
             = map int [1..<1 + length (ordered_blocks lesson_id tbl)]"
    by simp
  then show ?thesis unfolding reconcile_def by (rule fix_orders_noop)
qed

lemma two_blocks_ordered:
  "ordered_blocks 7 two_blocks = [two_blocks ! 1, two_blocks ! 0]"
  by (simp add: ordered_blocks_def two_blocks_def)

theorem reconcile_contiguous_noop_witness:
  "map order (ordered_blocks 7 two_blocks)
     = map int [1..<Suc (length (ordered_blocks 7 two_blocks))]
   \<and> reconcile (\<lambda>idx. False) 7 two_blocks = (two_blocks, [])
   \<and> map block_id (ordered_blocks 7 two_blocks) = [3, 5]"
proof -
  have h: "map order (ordered_blocks 7 two_blocks)
     = map int [1..<Suc (length (ordered_blocks 7 two_blocks))]"
    unfolding two_blocks_ordered by (simp add: two_blocks_def upt_rec)
  have "map block_id (ordered_blocks 7 two_blocks) = [3, 5]"
    unfolding two_blocks_ordered by (simp add: two_blocks_def)
  with h reconcile_contiguous_noop [OF h, of "\<lambda>idx. False"] show ?thesis by (intro conjI)
qed

section \<open>Properties of the Section Improvement Orchestrator\<close>






end
